theory Spec2Isabelle
  imports Main
begin

text \<open>
  A model of the JavaScript runtime's lexical front end: the character cursor
  (InputStream), tokens and their factory, the Lexer's \<^verbatim>\<open>nextToken\<close>, the buffered and
  the channel-filtering token stream, and the hash-consing containers of Utils. Each
  method is a function on an explicit state; a method that can throw returns the error
  as a value.
\<close>

section \<open>JavaScript values, strings and exceptions\<close>

text \<open>A JavaScript string is its sequence of UTF-16 code units.\<close>

type_synonym jsstring = "nat list"

definition codes :: "string \<Rightarrow> jsstring" where
  "codes s = map of_char s"

text \<open>
  The primitive values a token field or a channel argument can hold. Strict equality
  (\<^verbatim>\<open>===\<close>, \<^verbatim>\<open>!==\<close>) on them is equality of this type.
\<close>

datatype jsval = JUndefined | JNull | JNumber int | JString jsstring

text \<open>The classes of \<^verbatim>\<open>RecognitionException\<close> (error/Errors).\<close>

datatype recognition =
    LexerNoViableAltException
  | NoViableAltException
  | InputMismatchException
  | FailedPredicateException
  | PlainRecognitionException

text \<open>
  The message of an \<^verbatim>\<open>Error\<close>: a literal, or the template
  \<^verbatim>\<open>`${tokenIndex} not in 0..${this.tokens.length - 1}`\<close> with its two numbers.
\<close>

datatype message = Literal string | NotIn int int

text \<open>What a \<^verbatim>\<open>throw\<close> (or the engine) raises.\<close>

datatype error =
    ReferenceError string
  | TypeError string
  | RangeError string
  | Error message
  | RecognitionException recognition

text \<open>
  A call returns a value or throws, and leaves a state behind: \<open>(Inr v, s)\<close> or
  \<open>(Inl e, s)\<close>. A call that contains a loop with no bound takes fuel and is \<open>None\<close>
  when the fuel runs out before the loop ends.
\<close>

type_synonym ('a, 's) result = "(error + 'a) \<times> 's"

type_synonym ('a, 's) fueled = "((error + 'a) \<times> 's) option"

definition returns :: "('a, 's) result \<Rightarrow> ('a, 's) fueled" where
  "returns r = Some r"

definition then_run ::
  "('a, 's) fueled \<Rightarrow> ('a \<Rightarrow> 's \<Rightarrow> ('b, 's) fueled) \<Rightarrow> ('b, 's) fueled" where
  "then_run r f =
     (case r of
        None \<Rightarrow> None
      | Some (Inl e, s) \<Rightarrow> Some (Inl e, s)
      | Some (Inr a, s) \<Rightarrow> f a s)"

section \<open>InputStream\<close>

record InputStream =
  is_name :: jsstring
  is_index :: int
  strdata :: jsstring
  decodeToUnicodeCodePoints :: bool
  is_data :: "int list"
  is_size :: int

abbreviation (input) EOF :: int where
  "EOF \<equiv> - 1"

abbreviation (input) DEFAULT_CHANNEL :: int where
  "DEFAULT_CHANNEL \<equiv> 0"

abbreviation (input) HIDDEN_CHANNEL :: int where
  "HIDDEN_CHANNEL \<equiv> 1"

abbreviation (input) INVALID_TYPE :: int where
  "INVALID_TYPE \<equiv> 0"

text \<open>The constants \<^verbatim>\<open>EMPTY\<close> and \<^verbatim>\<open>EOF\<close> of tokens/constants.\<close>

definition EMPTY :: jsstring where
  "EMPTY = codes ''<empty>''"

definition EOF_text :: jsstring where
  "EOF_text = codes ''<EOF>''"

text \<open>
  \<^verbatim>\<open>decodeUnicodeCodePoints(string)\<close>. The loop body reads \<^verbatim>\<open>stream.strdata\<close>, and
  \<^verbatim>\<open>stream\<close> is no parameter, no local, no binding of the module (its imports are
  \<^verbatim>\<open>Token\<close>, \<^verbatim>\<open>isBrowser\<close> and \<^verbatim>\<open>EMPTY\<close>) and no standard global: evaluating it
  throws a ReferenceError, the first time the body runs.
\<close>

definition decodeUnicodeCodePoints :: "jsstring \<Rightarrow> error + int list" where
  "decodeUnicodeCodePoints string =
     (let data = [];
          stringSize = int (length string)
      in if 0 < stringSize then Inl (ReferenceError ''stream'') else Inr data)"

text \<open>
  \<^verbatim>\<open>decodeCharacterCodes(string)\<close>. The loop condition \<^verbatim>\<open>i < streamSize\<close> is evaluated
  before the first iteration, and \<^verbatim>\<open>streamSize\<close> is bound nowhere (the local is
  \<^verbatim>\<open>stringSize\<close>).
\<close>

definition decodeCharacterCodes :: "jsstring \<Rightarrow> error + int list" where
  "decodeCharacterCodes string =
     (let data = ([] :: int list);
          stringSize = int (length string)
      in Inl (ReferenceError ''streamSize''))"

text \<open>\<^verbatim>\<open>new InputStream(data, decodeToUnicodeCodePoints = false)\<close>\<close>

definition new_InputStream :: "jsstring \<Rightarrow> bool \<Rightarrow> error + InputStream" where
  "new_InputStream d decode =
     (case (if decode then decodeUnicodeCodePoints d else decodeCharacterCodes d) of
        Inl e \<Rightarrow> Inl e
      | Inr decoded \<Rightarrow>
          Inr \<lparr>is_name = EMPTY, is_index = 0, strdata = d,
               decodeToUnicodeCodePoints = decode, is_data = decoded,
               is_size = int (length decoded)\<rparr>)"

text \<open>Reading an array element: \<^verbatim>\<open>xs[i]\<close> is \<^verbatim>\<open>undefined\<close> (\<open>None\<close>) out of range.\<close>

definition at :: "'a list \<Rightarrow> int \<Rightarrow> 'a option" where
  "at xs i = (if 0 \<le> i \<and> i < int (length xs) then Some (xs ! nat i) else None)"

definition InputStream_consume :: "InputStream \<Rightarrow> error + InputStream" where
  "InputStream_consume this =
     (if is_index this \<ge> is_size this then Inl (Error (Literal ''cannot consume EOF''))
      else Inr (this\<lparr>is_index := is_index this + 1\<rparr>))"

text \<open>\<^verbatim>\<open>LA(offset)\<close>; \<open>None\<close> is \<^verbatim>\<open>undefined\<close>, read from \<^verbatim>\<open>data\<close> past its end.\<close>

definition InputStream_LA :: "InputStream \<Rightarrow> int \<Rightarrow> int option" where
  "InputStream_LA this offset =
     (if offset = 0 then Some 0
      else
        (let offset = (if offset < 0 then offset + 1 else offset);
             pos = is_index this + offset - 1
         in if pos < 0 \<or> pos \<ge> is_size this then Some EOF
            else at (is_data this) pos))"

definition InputStream_seek :: "InputStream \<Rightarrow> int \<Rightarrow> InputStream" where
  "InputStream_seek this i =
     (if i \<le> is_index this then this\<lparr>is_index := i\<rparr>
      else this\<lparr>is_index := min i (is_size this)\<rparr>)"

text \<open>\<^verbatim>\<open>String.prototype.slice(start, end)\<close>: negative arguments count from the end.\<close>

definition slice :: "jsstring \<Rightarrow> int \<Rightarrow> int \<Rightarrow> jsstring" where
  "slice s start end' =
     (let len = int (length s);
          lo = (if start < 0 then max (len + start) 0 else min start len);
          hi = (if end' < 0 then max (len + end') 0 else min end' len)
      in take (nat (hi - lo)) (drop (nat lo) s))"

text \<open>
  \<^verbatim>\<open>String.fromCodePoint(cp)\<close>: the UTF-16 encoding of a code point; a RangeError for
  \<^verbatim>\<open>undefined\<close> and for a number outside \<^verbatim>\<open>0 .. 0x10FFFF\<close>.
\<close>

definition fromCodePoint :: "int option \<Rightarrow> error + jsstring" where
  "fromCodePoint cp =
     (case cp of
        None \<Rightarrow> Inl (RangeError ''Invalid code point undefined'')
      | Some c \<Rightarrow>
          (if c < 0 \<or> 1114111 < c then Inl (RangeError ''Invalid code point'')
           else if c \<le> 65535 then Inr [nat c]
           else Inr [nat (55296 + (c - 65536) div 1024), nat (56320 + (c - 65536) mod 1024)]))"

function getText_codePoints :: "int list \<Rightarrow> int \<Rightarrow> int \<Rightarrow> jsstring \<Rightarrow> error + jsstring" where
  "getText_codePoints d i stop result =
     (if i \<le> stop then
        (case fromCodePoint (at d i) of
           Inl e \<Rightarrow> Inl e
         | Inr cs \<Rightarrow> getText_codePoints d (i + 1) stop (result @ cs))
      else Inr result)"
  by pat_completeness auto
termination
  by (relation "measure (\<lambda>(d, i, stop, result). nat (stop + 1 - i))") auto

declare getText_codePoints.simps [simp del]

definition InputStream_getText :: "InputStream \<Rightarrow> int \<Rightarrow> int \<Rightarrow> error + jsstring" where
  "InputStream_getText this start stop =
     (let stop = (if stop \<ge> is_size this then is_size this - 1 else stop)
      in if start \<ge> is_size this then Inr []
         else if decodeToUnicodeCodePoints this then getText_codePoints (is_data this) start stop []
         else Inr (slice (strdata this) start (stop + 1)))"

section \<open>Token, CommonToken and CommonTokenFactory\<close>

text \<open>
  \<^verbatim>\<open>source\<close> is the pair \<^verbatim>\<open>[lexer, inputStream]\<close>; of the lexer a token reads only
  \<^verbatim>\<open>line\<close> and \<^verbatim>\<open>column\<close>, so the first component is that pair, or \<open>None\<close> for
  \<^verbatim>\<open>null\<close>. \<open>text'\<close> is the field \<^verbatim>\<open>_text\<close>; \<open>None\<close> is \<^verbatim>\<open>null\<close> in the fields
  \<open>line\<close>, \<open>column\<close> and \<open>text'\<close>.
\<close>

type_synonym source_pair = "(int \<times> int) option \<times> InputStream option"

record Token =
  source :: source_pair
  type :: int
  channel :: jsval
  start :: int
  stop :: int
  tokenIndex :: int
  line :: "int option"
  column :: "int option"
  text' :: "jsstring option"

text \<open>
  \<^verbatim>\<open>new CommonToken(source, type, channel, start, stop)\<close> (tokens/Token.js). The
  constructor computes \<^verbatim>\<open>line\<close> and \<^verbatim>\<open>column\<close> from \<^verbatim>\<open>source[0]\<close> and then calls
  \<^verbatim>\<open>super(source, type, channel, start, stop, -1)\<close> without them, so both fields get
  the default \<^verbatim>\<open>null\<close> of \<^verbatim>\<open>Token\<close>'s constructor, as does \<^verbatim>\<open>_text\<close>.
\<close>

definition new_CommonToken :: "source_pair \<Rightarrow> int \<Rightarrow> jsval \<Rightarrow> int \<Rightarrow> int \<Rightarrow> Token" where
  "new_CommonToken src ty ch st sp =
     (let (line', column') = (case fst src of Some (l, c) \<Rightarrow> (l, c) | None \<Rightarrow> (- 1, - 1))
      in \<lparr>source = src, type = ty, channel = ch, start = st, stop = sp,
          tokenIndex = - 1, line = None, column = None, text' = None\<rparr>)"

text \<open>
  \<^verbatim>\<open>token.text = value\<close> on a CommonToken. The class declares \<^verbatim>\<open>get text()\<close> and no
  setter, so the accessor on \<^verbatim>\<open>CommonToken.prototype\<close> hides the setter of \<^verbatim>\<open>Token\<close>;
  the files are modules (strict code), where assigning to such a property throws.
\<close>

definition set_text :: "Token \<Rightarrow> jsstring \<Rightarrow> error + Token" where
  "set_text token v =
     Inl (TypeError ''Cannot set property text of #<CommonToken> which has only a getter'')"

text \<open>The getter \<^verbatim>\<open>CommonToken.text\<close>; \<open>Inr None\<close> is \<^verbatim>\<open>null\<close>.\<close>

definition get_text :: "Token \<Rightarrow> error + jsstring option" where
  "get_text this =
     (case text' this of
        Some t \<Rightarrow> Inr (Some t)
      | None \<Rightarrow>
          (case snd (source this) of
             None \<Rightarrow> Inr None
           | Some input \<Rightarrow>
               (let size' = is_size input
                in if start this < size' \<and> stop this < size' then
                     (case InputStream_getText input (start this) (stop this) of
                        Inl e \<Rightarrow> Inl e
                      | Inr t \<Rightarrow> Inr (Some t))
                   else Inr (Some EOF_text))))"

text \<open>
  \<^verbatim>\<open>CommonTokenFactory.create(source, type, text, channel, start, stop, line, column)\<close>;
  \<open>copyText\<close> is the factory's flag. Its first statement is
  \<^verbatim>\<open>new CommonToken(source, type, text, channel, stop, stop, line, column)\<close>, and the
  constructor takes \<^verbatim>\<open>(source, type, channel, start, stop)\<close>: it receives \<^verbatim>\<open>text\<close> as
  its channel, \<^verbatim>\<open>channel\<close> as its start and the first \<^verbatim>\<open>stop\<close> as its stop. A
  \<^verbatim>\<open>null\<close> argument is kept (only \<^verbatim>\<open>undefined\<close> selects a parameter's default).
\<close>

definition create ::
  "bool \<Rightarrow> source_pair \<Rightarrow> int \<Rightarrow> jsstring option \<Rightarrow> int \<Rightarrow> int \<Rightarrow> int \<Rightarrow> int \<Rightarrow> int \<Rightarrow> error + Token" where
  "create copyText src ty text channel' start' stop' line' column' =
     (let token = new_CommonToken src ty (case text of None \<Rightarrow> JNull | Some t \<Rightarrow> JString t)
                    channel' stop';
          token = token\<lparr>line := Some line'\<rparr>;
          token = token\<lparr>column := Some column'\<rparr>
      in case text of
           Some t \<Rightarrow> set_text token t
         | None \<Rightarrow>
             (case (copyText, snd src) of
                (True, Some input) \<Rightarrow>
                  (case InputStream_getText input start' stop' of
                     Inl e \<Rightarrow> Inl e
                   | Inr t \<Rightarrow> set_text token t)
              | _ \<Rightarrow> Inr token))"

section \<open>BufferedTokenStream and CommonTokenStream\<close>

text \<open>
  One record for both classes: \<open>cls\<close> is the class of the object, which decides the
  methods the subclass overrides (\<^verbatim>\<open>adjustSeekIndex\<close>, \<^verbatim>\<open>LT\<close>, \<^verbatim>\<open>LB\<close>), and
  \<open>s_channel\<close> is \<^verbatim>\<open>this.channel\<close>, which only the CommonTokenStream constructor sets
  (\<^verbatim>\<open>undefined\<close> otherwise). The type of \<open>tokens\<close> is a parameter: it is an array of
  tokens everywhere, except in what \<^verbatim>\<open>getTokens\<close> leaves behind.
\<close>

datatype cls = BufferedTokenStream | CommonTokenStream

record ('l, 't) TokenStream =
  cls :: cls
  tokenSource :: 'l
  tokens :: 't
  index :: int
  fetchedEOF :: bool
  s_channel :: jsval

type_synonym 'l stream = "('l, Token list) TokenStream"

text \<open>
  The token source is any object with a \<^verbatim>\<open>nextToken()\<close> method: a state \<open>'l\<close> and a
  function that returns a token or throws, and the state afterwards.
\<close>

type_synonym 'l token_source = "'l \<Rightarrow> (error + Token) \<times> 'l"

definition new_BufferedTokenStream :: "'l \<Rightarrow> 'l stream" where
  "new_BufferedTokenStream src =
     \<lparr>cls = BufferedTokenStream, tokenSource = src, tokens = [], index = - 1,
      fetchedEOF = False, s_channel = JUndefined\<rparr>"

definition new_CommonTokenStream :: "'l \<Rightarrow> int \<Rightarrow> 'l stream" where
  "new_CommonTokenStream lexer ch =
     (new_BufferedTokenStream lexer)\<lparr>cls := CommonTokenStream, s_channel := JNumber ch\<rparr>"

text \<open>The \<^verbatim>\<open>for\<close> loop of \<^verbatim>\<open>fetch\<close>, from the counter \<open>i\<close>.\<close>

function fetch_loop :: "'l token_source \<Rightarrow> int \<Rightarrow> int \<Rightarrow> 'l stream \<Rightarrow> (int, 'l stream) result" where
  "fetch_loop nextToken i elementsToBuffer this =
     (if i < elementsToBuffer then
        (case nextToken (tokenSource this) of
           (Inl e, src) \<Rightarrow> (Inl e, this\<lparr>tokenSource := src\<rparr>)
         | (Inr token, src) \<Rightarrow>
             (let token = token\<lparr>tokenIndex := int (length (tokens this))\<rparr>;
                  this = this\<lparr>tokenSource := src, tokens := tokens this @ [token]\<rparr>
              in if type token = EOF then (Inr (i + 1), this\<lparr>fetchedEOF := True\<rparr>)
                 else fetch_loop nextToken (i + 1) elementsToBuffer this))
      else (Inr elementsToBuffer, this))"
  by pat_completeness auto
termination
  by (relation "measure (\<lambda>(nextToken, i, elementsToBuffer, this). nat (elementsToBuffer - i))") auto

declare fetch_loop.simps [simp del]

definition fetch :: "'l token_source \<Rightarrow> int \<Rightarrow> 'l stream \<Rightarrow> (int, 'l stream) result" where
  "fetch nextToken elementsToBuffer this =
     (if fetchedEOF this then (Inr 0, this)
      else fetch_loop nextToken 0 elementsToBuffer this)"

definition sync :: "'l token_source \<Rightarrow> int \<Rightarrow> 'l stream \<Rightarrow> (bool, 'l stream) result" where
  "sync nextToken i this =
     (let elementsNeeded = i - int (length (tokens this)) + 1
      in if elementsNeeded > 0 then
           (case fetch nextToken elementsNeeded this of
              (Inl e, this) \<Rightarrow> (Inl e, this)
            | (Inr n, this) \<Rightarrow> (Inr (n \<ge> elementsNeeded), this))
         else (Inr True, this))"

text \<open>
  The \<^verbatim>\<open>while\<close> loop of \<^verbatim>\<open>nextTokenOnChannel\<close>, with the current \<^verbatim>\<open>token\<close>
  (\<open>None\<close> when \<^verbatim>\<open>this.tokens[index]\<close> was \<^verbatim>\<open>undefined\<close>). The loop compares with
  \<^verbatim>\<open>this.channel\<close>, not with the parameter \<^verbatim>\<open>channel\<close>. It has no bound of its own:
  each test of its condition takes one unit of fuel.
\<close>

fun nextTokenOnChannel_loop ::
  "'l token_source \<Rightarrow> nat \<Rightarrow> int \<Rightarrow> Token option \<Rightarrow> 'l stream \<Rightarrow> (int, 'l stream) fueled" where
  "nextTokenOnChannel_loop nextToken 0 i token this = None"
| "nextTokenOnChannel_loop nextToken (Suc fuel) i token this =
     (case token of
        None \<Rightarrow> Some (Inl (TypeError ''Cannot read properties of undefined (reading channel)''), this)
      | Some t \<Rightarrow>
          (if channel t \<noteq> s_channel this then
             (if type t = EOF then Some (Inr (- 1), this)
              else
                (case sync nextToken (i + 1) this of
                   (Inl e, this) \<Rightarrow> Some (Inl e, this)
                 | (Inr ok, this) \<Rightarrow>
                     nextTokenOnChannel_loop nextToken fuel (i + 1) (at (tokens this) (i + 1)) this))
           else Some (Inr i, this)))"

definition nextTokenOnChannel ::
  "'l token_source \<Rightarrow> nat \<Rightarrow> int \<Rightarrow> jsval \<Rightarrow> 'l stream \<Rightarrow> (int, 'l stream) fueled" where
  "nextTokenOnChannel nextToken fuel i ch this =
     (case sync nextToken i this of
        (Inl e, this) \<Rightarrow> Some (Inl e, this)
      | (Inr ok, this) \<Rightarrow>
          (if i \<ge> int (length (tokens this)) then Some (Inr (- 1), this)
           else nextTokenOnChannel_loop nextToken fuel i (at (tokens this) i) this))"

text \<open>
  \<^verbatim>\<open>previousTokenOnChannel(index, channel)\<close> reads \<^verbatim>\<open>this.tokens\<close> only.
\<close>

function previousTokenOnChannel :: "Token list \<Rightarrow> int \<Rightarrow> jsval \<Rightarrow> error + int" where
  "previousTokenOnChannel ts i ch =
     (if i \<ge> 0 then
        (case at ts i of
           None \<Rightarrow> Inl (TypeError ''Cannot read properties of undefined (reading channel)'')
         | Some t \<Rightarrow> (if channel t \<noteq> ch then previousTokenOnChannel ts (i - 1) ch else Inr i))
      else Inr i)"
  by pat_completeness auto
termination
  by (relation "measure (\<lambda>(ts, i, ch). nat (i + 1))") auto

declare previousTokenOnChannel.simps [simp del]

text \<open>\<^verbatim>\<open>adjustSeekIndex(index)\<close>: the identity, overridden by CommonTokenStream.\<close>

definition adjustSeekIndex ::
  "'l token_source \<Rightarrow> nat \<Rightarrow> int \<Rightarrow> 'l stream \<Rightarrow> (int, 'l stream) fueled" where
  "adjustSeekIndex nextToken fuel i this =
     (case cls this of
        BufferedTokenStream \<Rightarrow> Some (Inr i, this)
      | CommonTokenStream \<Rightarrow> nextTokenOnChannel nextToken fuel i (s_channel this) this)"

definition setup' :: "'l token_source \<Rightarrow> nat \<Rightarrow> 'l stream \<Rightarrow> (unit, 'l stream) fueled" where
  "setup' nextToken fuel this =
     then_run (returns (sync nextToken 0 this)) (\<lambda>ok this.
     then_run (adjustSeekIndex nextToken fuel 0 this) (\<lambda>i this.
       Some (Inr (), this\<lparr>index := i\<rparr>)))"

definition lazyInit :: "'l token_source \<Rightarrow> nat \<Rightarrow> 'l stream \<Rightarrow> (unit, 'l stream) fueled" where
  "lazyInit nextToken fuel this =
     (if index this = - 1 then setup' nextToken fuel this else Some (Inr (), this))"

definition seek :: "'l token_source \<Rightarrow> nat \<Rightarrow> int \<Rightarrow> 'l stream \<Rightarrow> (unit, 'l stream) fueled" where
  "seek nextToken fuel i this =
     then_run (lazyInit nextToken fuel this) (\<lambda>u this.
     then_run (adjustSeekIndex nextToken fuel i this) (\<lambda>j this.
       Some (Inr (), this\<lparr>index := j\<rparr>)))"

text \<open>The loop of \<^verbatim>\<open>CommonTokenStream.LB\<close>: \<open>k\<close> steps to the left, from \<open>n\<close>.\<close>

function LB_loop :: "Token list \<Rightarrow> jsval \<Rightarrow> int \<Rightarrow> int \<Rightarrow> int \<Rightarrow> error + int" where
  "LB_loop ts ch n k i =
     (if n \<le> k then
        (case previousTokenOnChannel ts (i - 1) ch of
           Inl e \<Rightarrow> Inl e
         | Inr j \<Rightarrow> LB_loop ts ch (n + 1) k j)
      else Inr i)"
  by pat_completeness auto
termination
  by (relation "measure (\<lambda>(ts, ch, n, k, i). nat (k + 1 - n))") auto

declare LB_loop.simps [simp del]

text \<open>
  \<^verbatim>\<open>LB(k)\<close>, of either class. The result \<open>None\<close> is \<^verbatim>\<open>null\<close> or \<^verbatim>\<open>undefined\<close>.
\<close>

definition LB :: "'l stream \<Rightarrow> int \<Rightarrow> error + Token option" where
  "LB this k =
     (case cls this of
        BufferedTokenStream \<Rightarrow>
          (if index this - k < 0 then Inr None else Inr (at (tokens this) (index this - k)))
      | CommonTokenStream \<Rightarrow>
          (if k = 0 \<or> index this - k < 0 then Inr None
           else
             (case LB_loop (tokens this) (s_channel this) 1 k (index this) of
                Inl e \<Rightarrow> Inl e
              | Inr i \<Rightarrow> (if i < 0 then Inr None else Inr (at (tokens this) i)))))"

text \<open>The loop of \<^verbatim>\<open>CommonTokenStream.LT\<close>: \<open>k - 1\<close> steps to the right, from \<open>n\<close>.\<close>

function LT_loop ::
  "'l token_source \<Rightarrow> nat \<Rightarrow> int \<Rightarrow> int \<Rightarrow> int \<Rightarrow> 'l stream \<Rightarrow> (int, 'l stream) fueled" where
  "LT_loop nextToken fuel n k i this =
     (if n < k then
        (case sync nextToken (i + 1) this of
           (Inl e, this) \<Rightarrow> Some (Inl e, this)
         | (Inr True, this) \<Rightarrow>
             (case nextTokenOnChannel nextToken fuel (i + 1) (s_channel this) this of
                None \<Rightarrow> None
              | Some (Inl e, this) \<Rightarrow> Some (Inl e, this)
              | Some (Inr j, this) \<Rightarrow> LT_loop nextToken fuel (n + 1) k j this)
         | (Inr False, this) \<Rightarrow> LT_loop nextToken fuel (n + 1) k i this)
      else Some (Inr i, this))"
  by pat_completeness auto
termination
  by (relation "measure (\<lambda>(nextToken, fuel, n, k, i, this). nat (k - n))") auto

declare LT_loop.simps [simp del]

definition LT ::
  "'l token_source \<Rightarrow> nat \<Rightarrow> int \<Rightarrow> 'l stream \<Rightarrow> (Token option, 'l stream) fueled" where
  "LT nextToken fuel k this =
     then_run (lazyInit nextToken fuel this) (\<lambda>u this.
       case cls this of
         BufferedTokenStream \<Rightarrow>
           (if k = 0 then Some (LB this (- k), this)
            else
              (let i = index this + k - 1
               in then_run (returns (sync nextToken i this)) (\<lambda>ok this.
                    if i \<ge> int (length (tokens this))
                    then Some (Inr (at (tokens this) (int (length (tokens this)) - 1)), this)
                    else Some (Inr (at (tokens this) i), this))))
       | CommonTokenStream \<Rightarrow>
           (if k = 0 then Some (Inr None, this)
            else if k < 0 then Some (LB this (- k), this)
            else
              then_run (LT_loop nextToken fuel 1 k (index this) this) (\<lambda>i this.
                Some (Inr (at (tokens this) i), this))))"

text \<open>\<^verbatim>\<open>LA(i) { return this.LT(i).type; }\<close>\<close>

definition LA :: "'l token_source \<Rightarrow> nat \<Rightarrow> int \<Rightarrow> 'l stream \<Rightarrow> (int, 'l stream) fueled" where
  "LA nextToken fuel i this =
     then_run (LT nextToken fuel i this) (\<lambda>t this.
       case t of
         None \<Rightarrow> Some (Inl (TypeError ''Cannot read properties of null (reading type)''), this)
       | Some t \<Rightarrow> Some (Inr (type t), this))"

text \<open>
  \<^verbatim>\<open>consume()\<close>. \<^verbatim>\<open>isEOF - 1\<close> turns the boolean into a number (\<^verbatim>\<open>true\<close> is 1,
  \<^verbatim>\<open>false\<close> is 0), and \<^verbatim>\<open>!skipEOFCheck\<close> reads a number as false exactly when it is 0.
  \<^verbatim>\<open>this.LA(1)\<close> is called only when \<^verbatim>\<open>!skipEOFCheck\<close> holds.
\<close>

definition consume :: "'l token_source \<Rightarrow> nat \<Rightarrow> 'l stream \<Rightarrow> (unit, 'l stream) fueled" where
  "consume nextToken fuel this =
     (let skipEOFCheck =
            (if index this \<ge> 0 then
               (let isEOF = index this < int (length (tokens this))
                in if fetchedEOF this then (if isEOF then 1 else 0) - 1 \<noteq> (0 :: int) else isEOF)
             else False)
      in then_run
           (if skipEOFCheck then Some (Inr False, this)
            else then_run (LA nextToken fuel 1 this) (\<lambda>t this. Some (Inr (t = EOF), this)))
           (\<lambda>atEOF this.
              if atEOF then Some (Inl (Error (Literal ''cannot consume EOF'')), this)
              else
                then_run (returns (sync nextToken (index this + 1) this)) (\<lambda>ok this.
                  if ok then
                    then_run (adjustSeekIndex nextToken fuel (index this + 1) this) (\<lambda>i this.
                      Some (Inr (), this\<lparr>index := i\<rparr>))
                  else Some (Inr (), this))))"

text \<open>
  \<^verbatim>\<open>fill() { this.lazyInit(); while (this.fetch(1000) === 1000) {} }\<close>: one unit of
  fuel for each call of \<^verbatim>\<open>fetch\<close>.
\<close>

fun fill_loop :: "'l token_source \<Rightarrow> nat \<Rightarrow> 'l stream \<Rightarrow> (unit, 'l stream) fueled" where
  "fill_loop nextToken 0 this = None"
| "fill_loop nextToken (Suc fuel) this =
     (case fetch nextToken 1000 this of
        (Inl e, this) \<Rightarrow> Some (Inl e, this)
      | (Inr n, this) \<Rightarrow>
          (if n = 1000 then fill_loop nextToken fuel this else Some (Inr (), this)))"

definition fill :: "'l token_source \<Rightarrow> nat \<Rightarrow> 'l stream \<Rightarrow> (unit, 'l stream) fueled" where
  "fill nextToken fuel this =
     then_run (lazyInit nextToken fuel this) (\<lambda>u this. fill_loop nextToken fuel this)"

text \<open>
  The loop of \<^verbatim>\<open>getText\<close>. \<^verbatim>\<open>tokenText += token.text\<close> appends the string
  \<^verbatim>\<open>null\<close> when the getter returns \<^verbatim>\<open>null\<close>.
\<close>

function getText_loop :: "Token list \<Rightarrow> int \<Rightarrow> int \<Rightarrow> jsstring \<Rightarrow> error + jsstring" where
  "getText_loop ts i stop' tokenText =
     (if i < stop' + 1 then
        (case at ts i of
           None \<Rightarrow> Inl (TypeError ''Cannot read properties of undefined (reading type)'')
         | Some token \<Rightarrow>
             (if type token = EOF then Inr tokenText
              else
                (case get_text token of
                   Inl e \<Rightarrow> Inl e
                 | Inr None \<Rightarrow> getText_loop ts (i + 1) stop' (tokenText @ codes ''null'')
                 | Inr (Some t) \<Rightarrow> getText_loop ts (i + 1) stop' (tokenText @ t))))
      else Inr tokenText)"
  by pat_completeness auto
termination
  by (relation "measure (\<lambda>(ts, i, stop', tokenText). nat (stop' + 1 - i))") auto

declare getText_loop.simps [simp del]

text \<open>
  \<^verbatim>\<open>getText(interval)\<close>, the interval given by its two numbers; \<open>None\<close> is the absent
  interval.
\<close>

definition getText ::
  "'l token_source \<Rightarrow> nat \<Rightarrow> (int \<times> int) option \<Rightarrow> 'l stream \<Rightarrow> (jsstring, 'l stream) fueled" where
  "getText nextToken fuel interval this =
     then_run (lazyInit nextToken fuel this) (\<lambda>u this.
     then_run (fill nextToken fuel this) (\<lambda>u this.
       (let (start', stop') =
              (case interval of
                 None \<Rightarrow> (0, int (length (tokens this)) - 1)
               | Some (a, b) \<Rightarrow> (a, b))
        in if start' < 0 \<or> stop' < 0 then Some (Inr [], this)
           else
             (let stop' = (if stop' \<ge> int (length (tokens this))
                           then int (length (tokens this)) - 1 else stop')
              in Some (getText_loop (tokens this) start' stop' [], this)))))"

function filterForChannel_loop ::
  "Token list \<Rightarrow> int \<Rightarrow> int \<Rightarrow> jsval \<Rightarrow> Token list \<Rightarrow> error + Token list" where
  "filterForChannel_loop ts i right ch hidden =
     (if i < right + 1 then
        (case at ts i of
           None \<Rightarrow> Inl (TypeError ''Cannot read properties of undefined (reading channel)'')
         | Some token \<Rightarrow>
             filterForChannel_loop ts (i + 1) right ch
               (if ch = JNumber (- 1) then
                  (if channel token \<noteq> JNumber DEFAULT_CHANNEL then hidden @ [token] else hidden)
                else if channel token = ch then hidden @ [token]
                else hidden))
      else Inr hidden)"
  by pat_completeness auto
termination
  by (relation "measure (\<lambda>(ts, i, right, ch, hidden). nat (right + 1 - i))") auto

declare filterForChannel_loop.simps [simp del]

text \<open>\<^verbatim>\<open>filterForChannel(left, right, channel)\<close>; \<open>Inr None\<close> is \<^verbatim>\<open>null\<close>.\<close>

definition filterForChannel :: "Token list \<Rightarrow> int \<Rightarrow> int \<Rightarrow> jsval \<Rightarrow> error + Token list option" where
  "filterForChannel ts left right ch =
     (case filterForChannel_loop ts left right ch [] of
        Inl e \<Rightarrow> Inl e
      | Inr hidden \<Rightarrow> (if length hidden = 0 then Inr None else Inr (Some hidden)))"

text \<open>
  \<^verbatim>\<open>getHiddenTokensToLeft(tokenIndex, channel)\<close>. \<^verbatim>\<open>!prevOnChannel\<close> holds exactly
  when the number \<^verbatim>\<open>prevOnChannel\<close> is 0.
\<close>

definition getHiddenTokensToLeft ::
  "'l token_source \<Rightarrow> nat \<Rightarrow> int \<Rightarrow> jsval \<Rightarrow> 'l stream \<Rightarrow> (Token list option, 'l stream) fueled" where
  "getHiddenTokensToLeft nextToken fuel tokenIndex' ch this =
     (let ch = (if ch = JNull \<or> ch = JUndefined then JNumber (- 1) else ch)
      in then_run (lazyInit nextToken fuel this) (\<lambda>u this.
           if tokenIndex' < 0 \<or> tokenIndex' \<ge> int (length (tokens this)) then
             Some (Inl (Error (NotIn tokenIndex' (int (length (tokens this)) - 1))), this)
           else
             (case previousTokenOnChannel (tokens this) (tokenIndex' - 1) (JNumber DEFAULT_CHANNEL) of
                Inl e \<Rightarrow> Some (Inl e, this)
              | Inr prevOnChannel \<Rightarrow>
                  (if prevOnChannel = 0 then Some (Inr None, this)
                   else
                     Some (filterForChannel (tokens this) (prevOnChannel + 1) (tokenIndex' - 1) ch,
                           this)))))"

text \<open>
  What \<^verbatim>\<open>this.tokens\<close> can hold while \<^verbatim>\<open>getTokens\<close> runs: the loop assigns to the
  field (\<^verbatim>\<open>const token = this.tokens = this.tokens[i]\<close>), so after the first iteration
  it is a token, and after reading an index of that token it is \<^verbatim>\<open>undefined\<close>.
\<close>

datatype tokens_value = An_Array "Token list" | A_Token Token | Undefined_value

text \<open>
  \<^verbatim>\<open>this.tokens[i]\<close>: an element or \<^verbatim>\<open>undefined\<close> of an array, \<^verbatim>\<open>undefined\<close> of a
  token (it has no indexed property), a TypeError of \<^verbatim>\<open>undefined\<close>.
\<close>

definition element :: "tokens_value \<Rightarrow> int \<Rightarrow> error + Token option" where
  "element v i =
     (case v of
        An_Array ts \<Rightarrow> Inr (at ts i)
      | A_Token t \<Rightarrow> Inr None
      | Undefined_value \<Rightarrow> Inl (TypeError ''Cannot read properties of undefined''))"

text \<open>
  The loop of \<^verbatim>\<open>getTokens\<close>: the result, and the value of \<^verbatim>\<open>this.tokens\<close> at the end.
  \<open>types\<close> is \<^verbatim>\<open>types.contains\<close>, or \<open>None\<close> for \<^verbatim>\<open>null\<close>.
\<close>

function getTokens_loop ::
  "int \<Rightarrow> int \<Rightarrow> (int \<Rightarrow> bool) option \<Rightarrow> tokens_value \<Rightarrow> Token list \<Rightarrow> (Token list, tokens_value) result" where
  "getTokens_loop i stop' types v subset' =
     (if i < stop' then
        (case element v i of
           Inl e \<Rightarrow> (Inl e, v)
         | Inr None \<Rightarrow>
             (Inl (TypeError ''Cannot read properties of undefined (reading type)''), Undefined_value)
         | Inr (Some token) \<Rightarrow>
             (if type token = EOF then (Inr subset', A_Token token)
              else
                getTokens_loop (i + 1) stop' types (A_Token token)
                  (if (case types of None \<Rightarrow> True | Some contains \<Rightarrow> contains (type token))
                   then subset' @ [token] else subset')))
      else (Inr subset', v))"
  by pat_completeness auto
termination
  by (relation "measure (\<lambda>(i, stop', types, v, subset'). nat (stop' - i))") auto

declare getTokens_loop.simps [simp del]

definition with_tokens :: "('l, 'a) TokenStream \<Rightarrow> 'b \<Rightarrow> ('l, 'b) TokenStream" where
  "with_tokens this v =
     \<lparr>cls = cls this, tokenSource = tokenSource this, tokens = v, index = index this,
      fetchedEOF = fetchedEOF this, s_channel = s_channel this\<rparr>"

text \<open>\<^verbatim>\<open>getTokens(start, stop, types)\<close>; the result \<open>Inr None\<close> is \<^verbatim>\<open>null\<close>.\<close>

definition getTokens ::
  "'l token_source \<Rightarrow> nat \<Rightarrow> int \<Rightarrow> int \<Rightarrow> (int \<Rightarrow> bool) option \<Rightarrow> 'l stream \<Rightarrow>
     (Token list option, ('l, tokens_value) TokenStream) fueled" where
  "getTokens nextToken fuel start' stop' types this =
     (if start' < 0 \<or> stop' < 0 then Some (Inr None, with_tokens this (An_Array (tokens this)))
      else
        (case lazyInit nextToken fuel this of
           None \<Rightarrow> None
         | Some (Inl e, this) \<Rightarrow> Some (Inl e, with_tokens this (An_Array (tokens this)))
         | Some (Inr u, this) \<Rightarrow>
             (let stop' = (if stop' \<ge> int (length (tokens this))
                           then int (length (tokens this)) - 1 else stop')
              in case getTokens_loop start' stop' types (An_Array (tokens this)) [] of
                   (Inl e, v) \<Rightarrow> Some (Inl e, with_tokens this v)
                 | (Inr subset', v) \<Rightarrow> Some (Inr (Some subset'), with_tokens this v))))"

text \<open>The test that \<^verbatim>\<open>filterForChannel\<close> applies to a token.\<close>

definition wanted :: "jsval \<Rightarrow> Token \<Rightarrow> bool" where
  "wanted ch token =
     (if ch = JNumber (- 1) then channel token \<noteq> JNumber DEFAULT_CHANNEL else channel token = ch)"

text \<open>\<^verbatim>\<open>get(index)\<close>, \<^verbatim>\<open>reset()\<close> and \<^verbatim>\<open>setTokenSource(tokenSource)\<close>.\<close>

definition get :: "'l token_source \<Rightarrow> nat \<Rightarrow> int \<Rightarrow> 'l stream \<Rightarrow> (Token option, 'l stream) fueled" where
  "get nextToken fuel i this =
     then_run (lazyInit nextToken fuel this) (\<lambda>u this. Some (Inr (at (tokens this) i), this))"

definition reset :: "'l token_source \<Rightarrow> nat \<Rightarrow> 'l stream \<Rightarrow> (unit, 'l stream) fueled" where
  "reset nextToken fuel this = seek nextToken fuel 0 this"

definition setTokenSource :: "'l \<Rightarrow> 'l stream \<Rightarrow> 'l stream" where
  "setTokenSource src this =
     this\<lparr>tokenSource := src, tokens := [], index := - 1, fetchedEOF := False\<rparr>"

text \<open>\<^verbatim>\<open>getHiddenTokensToRigh(tokenIndex, channel)\<close>, under the name the source gives it.\<close>

definition getHiddenTokensToRigh ::
  "'l token_source \<Rightarrow> nat \<Rightarrow> int \<Rightarrow> jsval \<Rightarrow> 'l stream \<Rightarrow> (Token list option, 'l stream) fueled" where
  "getHiddenTokensToRigh nextToken fuel tokenIndex' ch this =
     (let ch = (if ch = JNull \<or> ch = JUndefined then JNumber (- 1) else ch)
      in then_run (lazyInit nextToken fuel this) (\<lambda>u this.
           if tokenIndex' < 0 \<or> tokenIndex' \<ge> int (length (tokens this)) then
             Some (Inl (Error (NotIn tokenIndex' (int (length (tokens this)) - 1))), this)
           else
             then_run (nextTokenOnChannel nextToken fuel (tokenIndex' + 1)
                         (JNumber DEFAULT_CHANNEL) this) (\<lambda>nextOnChannel this.
               (let left = tokenIndex' + 1;
                    right = (if nextOnChannel = - 1 then int (length (tokens this)) - 1
                             else nextOnChannel)
                in Some (filterForChannel (tokens this) left right ch, this)))))"

text \<open>
  The buffer invariant: no token before the last has type EOF, and \<^verbatim>\<open>fetchedEOF\<close> is
  true exactly when the buffer ends in a token of type EOF.
\<close>

definition buffer_ok :: "'l stream \<Rightarrow> bool" where
  "buffer_ok this \<longleftrightarrow>
     (\<forall>t \<in> set (butlast (tokens this)). type t \<noteq> EOF) \<and>
     (fetchedEOF this \<longleftrightarrow> tokens this \<noteq> [] \<and> type (last (tokens this)) = EOF)"

section \<open>Lexer\<close>

text \<open>
  The fields of a Lexer; \<open>l_input\<close> is \<^verbatim>\<open>_input\<close> and so on. \<open>l_interp\<close> is the state
  of the matching engine \<^verbatim>\<open>_interp\<close>, which is outside this code; \<open>copyText\<close> is the
  flag of the token factory \<^verbatim>\<open>_factory\<close>.
\<close>

record 'i Lexer =
  l_input :: "InputStream option"
  copyText :: bool
  l_interp :: 'i
  l_token :: "Token option"
  l_tokenStartCharIndex :: int
  l_tokenStartLine :: int
  l_tokenStartColumn :: int
  l_hitEOF :: bool
  l_channel :: int
  l_type :: int
  l_modeStack :: "int list"
  l_mode :: int
  l_text :: "jsstring option"

abbreviation (input) MORE :: int where
  "MORE \<equiv> - 2"

abbreviation (input) SKIP :: int where
  "SKIP \<equiv> - 3"

text \<open>
  What the Lexer calls and does not define. \<open>match\<close> is \<^verbatim>\<open>_interp.match(_input, _mode)\<close>:
  it returns a token type or throws, and on the way it can move the input, its own line
  and column, and (through lexer actions) the fields of the Lexer. \<open>interp_consume\<close> is
  \<^verbatim>\<open>_interp.consume(_input)\<close>; \<open>interp_line\<close> and \<open>interp_column\<close> read \<^verbatim>\<open>_interp.line\<close>
  and \<^verbatim>\<open>_interp.column\<close>. \<open>syntaxError\<close> is
  \<^verbatim>\<open>this.getErrorListenerDispatch().syntaxError(this, null, line, column, msg, e)\<close>:
  \<^verbatim>\<open>getErrorListenerDispatch\<close> is a method of neither \<^verbatim>\<open>Lexer\<close> nor its superclass
  \<^verbatim>\<open>TokenSource\<close>, so the listeners are a parameter as well.
\<close>

record 'i collaborators =
  match :: "'i Lexer \<Rightarrow> (error + int) \<times> 'i Lexer"
  interp_consume :: "'i Lexer \<Rightarrow> (error + unit) \<times> 'i Lexer"
  interp_line :: "'i \<Rightarrow> int"
  interp_column :: "'i \<Rightarrow> int"
  syntaxError :: "int \<Rightarrow> int \<Rightarrow> jsstring \<Rightarrow> error \<Rightarrow> 'i Lexer \<Rightarrow> (error + unit) \<times> 'i Lexer"

text \<open>\<^verbatim>\<open>this._input.LA(1) === Token.EOF\<close>; a TypeError when \<^verbatim>\<open>_input\<close> is \<^verbatim>\<open>null\<close>.\<close>

definition at_EOF :: "'i Lexer \<Rightarrow> error + bool" where
  "at_EOF this =
     (case l_input this of
        None \<Rightarrow> Inl (TypeError ''Cannot read properties of null (reading LA)'')
      | Some input \<Rightarrow> Inr (InputStream_LA input 1 = Some EOF))"

text \<open>\<^verbatim>\<open>recover(re)\<close>, for the class \<open>re\<close> of the RecognitionException caught.\<close>

definition recover :: "'i collaborators \<Rightarrow> recognition \<Rightarrow> 'i Lexer \<Rightarrow> (unit, 'i Lexer) result" where
  "recover ext re this =
     (case l_input this of
        None \<Rightarrow> (Inl (TypeError ''Cannot read properties of null (reading LA)''), this)
      | Some input \<Rightarrow>
          (if InputStream_LA input 1 = Some EOF then
             (case InputStream_consume input of
                Inl e \<Rightarrow> (Inl e, this)
              | Inr input \<Rightarrow> (Inr (), this\<lparr>l_input := Some input\<rparr>))
           else if re = LexerNoViableAltException then interp_consume ext this
           else (Inr (), this)))"

text \<open>
  \<^verbatim>\<open>notifyListeners(e)\<close>. \<^verbatim>\<open>getErrorDisplay\<close> splits the text into its code units and
  joins them again, which gives the text back.
\<close>

definition getErrorDisplay :: "jsstring \<Rightarrow> jsstring" where
  "getErrorDisplay string = concat (map (\<lambda>c. [c]) string)"

definition notifyListeners :: "'i collaborators \<Rightarrow> recognition \<Rightarrow> 'i Lexer \<Rightarrow> (unit, 'i Lexer) result" where
  "notifyListeners ext re this =
     (case l_input this of
        None \<Rightarrow> (Inl (TypeError ''Cannot read properties of null (reading index)''), this)
      | Some input \<Rightarrow>
          (let start' = l_tokenStartCharIndex this;
               stop' = is_index input
           in case InputStream_getText input start' stop' of
                Inl e \<Rightarrow> (Inl e, this)
              | Inr t \<Rightarrow>
                  syntaxError ext (l_tokenStartLine this) (l_tokenStartColumn this)
                    (codes ''token recognition error at: '' @ getErrorDisplay t)
                    (RecognitionException re) this))"

text \<open>\<^verbatim>\<open>_tokenFactorySourcePair\<close>, as a token reads it: \<^verbatim>\<open>[this, this._input]\<close>.\<close>

definition tokenFactorySourcePair :: "'i collaborators \<Rightarrow> 'i Lexer \<Rightarrow> source_pair" where
  "tokenFactorySourcePair ext this =
     (Some (interp_line ext (l_interp this), interp_column ext (l_interp this)), l_input this)"

text \<open>\<^verbatim>\<open>emit()\<close> and \<^verbatim>\<open>emitEOF()\<close>, with \<^verbatim>\<open>emitToken\<close> inlined.\<close>

definition emit :: "'i collaborators \<Rightarrow> 'i Lexer \<Rightarrow> (Token, 'i Lexer) result" where
  "emit ext this =
     (case l_input this of
        None \<Rightarrow> (Inl (TypeError ''Cannot read properties of null (reading index)''), this)
      | Some input \<Rightarrow>
          (case create (copyText this) (tokenFactorySourcePair ext this) (l_type this)
                  (l_text this) (l_channel this) (l_tokenStartCharIndex this)
                  (is_index input - 1) (l_tokenStartLine this) (l_tokenStartColumn this) of
             Inl e \<Rightarrow> (Inl e, this)
           | Inr token \<Rightarrow> (Inr token, this\<lparr>l_token := Some token\<rparr>)))"

definition emitEOF :: "'i collaborators \<Rightarrow> 'i Lexer \<Rightarrow> (Token, 'i Lexer) result" where
  "emitEOF ext this =
     (case l_input this of
        None \<Rightarrow> (Inl (TypeError ''Cannot read properties of null (reading index)''), this)
      | Some input \<Rightarrow>
          (case create (copyText this) (tokenFactorySourcePair ext this) EOF None
                  DEFAULT_CHANNEL (is_index input) (is_index input - 1)
                  (interp_line ext (l_interp this)) (interp_column ext (l_interp this)) of
             Inl e \<Rightarrow> (Inl e, this)
           | Inr eof \<Rightarrow> (Inr eof, this\<lparr>l_token := Some eof\<rparr>)))"

text \<open>
  The tail of one pass through the inner loop of \<^verbatim>\<open>nextToken\<close>, after the
  \<^verbatim>\<open>try\<close>/\<^verbatim>\<open>catch\<close> has left \<open>ttype\<close>: the two assignments, then \<open>Some True\<close> for
  \<^verbatim>\<open>continueOuter = true; break\<close>, \<open>Some False\<close> for \<^verbatim>\<open>break\<close> and \<open>None\<close> for
  another pass.
\<close>

definition classify :: "int \<Rightarrow> 'i Lexer \<Rightarrow> (bool option, 'i Lexer) result" where
  "classify ttype this =
     (case at_EOF this of
        Inl e \<Rightarrow> (Inl e, this)
      | Inr eof \<Rightarrow>
          (let this = (if eof then this\<lparr>l_hitEOF := True\<rparr> else this);
               this = (if l_type this = INVALID_TYPE then this\<lparr>l_type := ttype\<rparr> else this)
           in if l_type this = SKIP then (Inr (Some True), this)
              else if l_type this = MORE then (Inr (Some False), this)
              else (Inr None, this)))"

text \<open>
  The \<^verbatim>\<open>try\<close>/\<^verbatim>\<open>catch\<close> around \<^verbatim>\<open>match\<close>: the token type for the pass, \<^verbatim>\<open>SKIP\<close>
  when a RecognitionException was caught and handled.
\<close>

definition try_match :: "'i collaborators \<Rightarrow> 'i Lexer \<Rightarrow> (int, 'i Lexer) result" where
  "try_match ext this =
     (case match ext this of
        (Inr ttype, this) \<Rightarrow> (Inr ttype, this)
      | (Inl (RecognitionException re), this) \<Rightarrow>
          (case notifyListeners ext re this of
             (Inl e, this) \<Rightarrow> (Inl e, this)
           | (Inr u, this) \<Rightarrow>
               (case recover ext re this of
                  (Inl e, this) \<Rightarrow> (Inl e, this)
                | (Inr u, this) \<Rightarrow> (Inr SKIP, this)))
      | (Inl e, this) \<Rightarrow> (Inl e, this))"

text \<open>The inner \<^verbatim>\<open>while (true)\<close>; the result is \<^verbatim>\<open>continueOuter\<close>.\<close>

fun inner_loop :: "'i collaborators \<Rightarrow> nat \<Rightarrow> 'i Lexer \<Rightarrow> (bool, 'i Lexer) fueled" where
  "inner_loop ext 0 this = None"
| "inner_loop ext (Suc fuel) this =
     (case try_match ext (this\<lparr>l_type := INVALID_TYPE\<rparr>) of
        (Inl e, this) \<Rightarrow> Some (Inl e, this)
      | (Inr ttype, this) \<Rightarrow>
          (case classify ttype this of
             (Inl e, this) \<Rightarrow> Some (Inl e, this)
           | (Inr (Some continueOuter), this) \<Rightarrow> Some (Inr continueOuter, this)
           | (Inr None, this) \<Rightarrow> inner_loop ext fuel this))"

text \<open>The outer \<^verbatim>\<open>while (true)\<close>.\<close>

fun outer_loop :: "'i collaborators \<Rightarrow> nat \<Rightarrow> 'i Lexer \<Rightarrow> (Token option, 'i Lexer) fueled" where
  "outer_loop ext 0 this = None"
| "outer_loop ext (Suc fuel) this =
     (if l_hitEOF this then
        (case emitEOF ext this of
           (Inl e, this) \<Rightarrow> Some (Inl e, this)
         | (Inr eof, this) \<Rightarrow> Some (Inr (l_token this), this))
      else
        (case l_input this of
           None \<Rightarrow> Some (Inl (TypeError ''Cannot read properties of null (reading index)''), this)
         | Some input \<Rightarrow>
             (case inner_loop ext (Suc fuel)
                     (this\<lparr>l_token := None, l_channel := DEFAULT_CHANNEL,
                           l_tokenStartCharIndex := is_index input,
                           l_tokenStartColumn := interp_column ext (l_interp this),
                           l_tokenStartLine := interp_line ext (l_interp this),
                           l_text := None\<rparr>) of
                None \<Rightarrow> None
              | Some (Inl e, this) \<Rightarrow> Some (Inl e, this)
              | Some (Inr True, this) \<Rightarrow> outer_loop ext fuel this
              | Some (Inr False, this) \<Rightarrow>
                  (if l_token this = None then
                     (case emit ext this of
                        (Inl e, this) \<Rightarrow> Some (Inl e, this)
                      | (Inr token, this) \<Rightarrow> Some (Inr (l_token this), this))
                   else Some (Inr (l_token this), this)))))"

text \<open>
  \<^verbatim>\<open>nextToken()\<close>. \<^verbatim>\<open>mark\<close> and \<^verbatim>\<open>release\<close> of the InputStream do nothing, so the
  \<^verbatim>\<open>finally\<close> block keeps the result and the state, unless \<^verbatim>\<open>_input\<close> has become
  \<^verbatim>\<open>null\<close> on the way: then calling \<^verbatim>\<open>release\<close> on it throws.
\<close>

definition nextToken :: "'i collaborators \<Rightarrow> nat \<Rightarrow> 'i Lexer \<Rightarrow> (Token option, 'i Lexer) fueled" where
  "nextToken ext fuel this =
     (case l_input this of
        None \<Rightarrow> Some (Inl (Error (Literal ''nextToken requires a non-null input stream'')), this)
      | Some input \<Rightarrow>
          (case outer_loop ext fuel this of
             None \<Rightarrow> None
           | Some (r, this) \<Rightarrow>
               (case l_input this of
                  None \<Rightarrow>
                    Some (Inl (TypeError ''Cannot read properties of null (reading release)''), this)
                | Some input \<Rightarrow> Some (r, this))))"

section \<open>Utils: the hash-consing Set and the BitSet\<close>

subsection \<open>Set\<close>

text \<open>
  \<^verbatim>\<open>Set.data\<close> is a plain object whose property names are the template strings
  \<^verbatim>\<open>`hash_${hash}`\<close>; each property holds the array of the values stored under that
  hash. The constructor \<open>hash_key\<close> stands for the template string.
\<close>

datatype key = hash_key int

record 'a Set =
  data :: "key \<rightharpoonup> 'a list"
  hashFunction :: "'a \<Rightarrow> int"
  equalsFunction :: "'a \<Rightarrow> 'a \<Rightarrow> bool"

text \<open>\<^verbatim>\<open>new Set(hashFunction, equalsFunction)\<close>: \<^verbatim>\<open>this.data = {}\<close>.\<close>

definition new_Set :: "('a \<Rightarrow> int) \<Rightarrow> ('a \<Rightarrow> 'a \<Rightarrow> bool) \<Rightarrow> 'a Set" where
  "new_Set h eq = \<lparr>data = Map.empty, hashFunction = h, equalsFunction = eq\<rparr>"

text \<open>
  The scan of \<^verbatim>\<open>add\<close> and \<^verbatim>\<open>get\<close>:
  \<^verbatim>\<open>for (i = 0; i < valueSize; i++) if (this.equalsFunction(value, values[i])) return values[i];\<close>
\<close>

fun scan :: "('a \<Rightarrow> 'a \<Rightarrow> bool) \<Rightarrow> 'a \<Rightarrow> 'a list \<Rightarrow> 'a option" where
  "scan eq v [] = None"
| "scan eq v (x # xs) = (if eq v x then Some x else scan eq v xs)"

text \<open>\<^verbatim>\<open>Set.add(value)\<close>: the returned value and the set afterwards.\<close>

definition add :: "'a \<Rightarrow> 'a Set \<Rightarrow> 'a \<times> 'a Set" where
  "add v s =
     (let hash = hashFunction s v;
          k = hash_key hash
      in case data s k of
           Some vs \<Rightarrow>
             (case scan (equalsFunction s) v vs of
                Some x \<Rightarrow> (x, s)
              | None \<Rightarrow> (v, s\<lparr>data := (data s)(k \<mapsto> vs @ [v])\<rparr>))
         | None \<Rightarrow> (v, s\<lparr>data := (data s)(k \<mapsto> [v])\<rparr>))"

text \<open>A run of \<^verbatim>\<open>add\<close> calls, ignoring the returned instances.\<close>

fun adds :: "'a list \<Rightarrow> 'a Set \<Rightarrow> 'a Set" where
  "adds [] s = s"
| "adds (v # vs) s = adds vs (snd (add v s))"

text \<open>The values a set holds: the members of all its buckets.\<close>

definition stored :: "'a Set \<Rightarrow> 'a set" where
  "stored s = {x. \<exists>k vs. data s k = Some vs \<and> x \<in> set vs}"

text \<open>Every value sits in the bucket of its own hash, and no bucket holds two equal values.\<close>

definition canonical :: "'a Set \<Rightarrow> bool" where
  "canonical s \<longleftrightarrow>
     (\<forall>k vs. data s k = Some vs \<longrightarrow>
        (\<forall>x \<in> set vs. k = hash_key (hashFunction s x)) \<and>
        sorted_wrt (\<lambda>x y. \<not> equalsFunction s y x) vs)"

subsection \<open>BitSet\<close>

text \<open>
  \<^verbatim>\<open>BitSet.data\<close> is a JavaScript array used sparsely: \<^verbatim>\<open>data[value] = true\<close>.
  The model keeps the indexed elements as a list as long as the array's \<^verbatim>\<open>length\<close>
  (\<open>True\<close> for an element holding \<^verbatim>\<open>true\<close>, \<open>False\<close> for a hole, which reads as
  \<^verbatim>\<open>undefined\<close>), and the names of the non-index properties the array object carries.
\<close>

record jsarray =
  elems :: "bool list"
  named :: "string set"

text \<open>
  What \<^verbatim>\<open>add\<close> can be handed: a number, or one of the two values that iterating
  such an array yields. \<open>BNumber n\<close> is the non-negative integer \<open>n\<close>, one that a
  JavaScript number holds exactly.
\<close>

datatype bval = BNumber nat | BTrue | BUndefined

record BitSet =
  bs_data :: jsarray

definition new_BitSet :: BitSet where
  "new_BitSet = \<lparr>bs_data = \<lparr>elems = [], named = {}\<rparr>\<rparr>"

text \<open>The string form of such a number, which is its property name: the decimal digits.\<close>

definition digit :: "nat \<Rightarrow> char" where
  "digit d = ''0123456789'' ! d"

fun decimal :: "nat \<Rightarrow> string" where
  "decimal n =
     (if n < 10 then [digit n]
      else decimal (n div 10) @ [digit (n mod 10)])"

declare decimal.simps [simp del]

text \<open>
  \<^verbatim>\<open>data[value] = true\<close>. A number below \<open>2\<^sup>3\<^sup>2 - 1\<close> is an array index: at or
  beyond \<^verbatim>\<open>length\<close> it extends the array, leaving holes. Any other key (a number from
  \<open>2\<^sup>3\<^sup>2 - 1\<close> on, \<^verbatim>\<open>true\<close>, \<^verbatim>\<open>undefined\<close>) becomes the property named by its
  string form, and \<^verbatim>\<open>length\<close> stays.
\<close>

definition put_true :: "bval \<Rightarrow> jsarray \<Rightarrow> jsarray" where
  "put_true v a =
     (case v of
        BNumber n \<Rightarrow>
          (if 4294967295 \<le> n then a\<lparr>named := insert (decimal n) (named a)\<rparr>
           else if n < length (elems a) then a\<lparr>elems := (elems a)[n := True]\<rparr>
           else a\<lparr>elems := elems a @ replicate (n - length (elems a)) False @ [True]\<rparr>)
      | BTrue \<Rightarrow> a\<lparr>named := insert ''true'' (named a)\<rparr>
      | BUndefined \<Rightarrow> a\<lparr>named := insert ''undefined'' (named a)\<rparr>)"

text \<open>\<^verbatim>\<open>data[value] === true\<close>.\<close>

definition reads_true :: "bval \<Rightarrow> jsarray \<Rightarrow> bool" where
  "reads_true v a =
     (case v of
        BNumber n \<Rightarrow>
          (if 4294967295 \<le> n then decimal n \<in> named a
           else n < length (elems a) \<and> elems a ! n)
      | BTrue \<Rightarrow> ''true'' \<in> named a
      | BUndefined \<Rightarrow> ''undefined'' \<in> named a)"

text \<open>
  The values \<^verbatim>\<open>for (let alt of data)\<close> visits: the elements at the indices
  \<^verbatim>\<open>0 .. length - 1\<close>, a hole giving \<^verbatim>\<open>undefined\<close>.
\<close>

definition iterate :: "jsarray \<Rightarrow> bval list" where
  "iterate a = map (\<lambda>b. if b then BTrue else BUndefined) (elems a)"

definition BitSet_add :: "bval \<Rightarrow> BitSet \<Rightarrow> BitSet" where
  "BitSet_add v b = b\<lparr>bs_data := put_true v (bs_data b)\<rparr>"

definition BitSet_contains :: "bval \<Rightarrow> BitSet \<Rightarrow> bool" where
  "BitSet_contains v b = reads_true v (bs_data b)"

text \<open>
  \<^verbatim>\<open>delete this.data[value]\<close>: an element becomes a hole and the length stays; a
  named property is removed.
\<close>

definition BitSet_remove :: "bval \<Rightarrow> BitSet \<Rightarrow> BitSet" where
  "BitSet_remove v b =
     (let a = bs_data b
      in b\<lparr>bs_data :=
           (case v of
              BNumber n \<Rightarrow>
                (if 4294967295 \<le> n then a\<lparr>named := named a - {decimal n}\<rparr>
                 else if n < length (elems a) then a\<lparr>elems := (elems a)[n := False]\<rparr>
                 else a)
            | BTrue \<Rightarrow> a\<lparr>named := named a - {''true''}\<rparr>
            | BUndefined \<Rightarrow> a\<lparr>named := named a - {''undefined''}\<rparr>)\<rparr>)"

text \<open>\<^verbatim>\<open>or(set) { for (let alt of set.data) { this.add(alt); } }\<close>\<close>

definition BitSet_or :: "BitSet \<Rightarrow> BitSet \<Rightarrow> BitSet" where
  "BitSet_or this set' = fold BitSet_add (iterate (bs_data set')) this"

section \<open>Test doubles for the examples\<close>

text \<open>A token source that hands out a prepared list of tokens, one for each call.\<close>

definition scripted :: "Token list token_source" where
  "scripted l =
     (case l of
        [] \<Rightarrow> (Inl (Error (Literal ''no more tokens'')), [])
      | t # ts \<Rightarrow> (Inr t, ts))"

text \<open>A token with a type, a channel and its own text, not yet in any stream.\<close>

definition a_token :: "int \<Rightarrow> int \<Rightarrow> string \<Rightarrow> Token" where
  "a_token ty ch tx =
     \<lparr>source = (None, None), type = ty, channel = JNumber ch, start = - 1, stop = - 1,
      tokenIndex = - 1, line = None, column = None, text' = Some (codes tx)\<rparr>"

text \<open>
  The tokens of \<^verbatim>\<open>A #comment\<close> newline \<^verbatim>\<open>B\<close>: \<open>A\<close> and \<open>B\<close> on the default channel,
  the comment on the hidden channel, then the EOF token.
\<close>

definition commented :: "Token list" where
  "commented =
     [a_token 1 DEFAULT_CHANNEL ''A'', a_token 2 HIDDEN_CHANNEL ''#comment'',
      a_token 1 DEFAULT_CHANNEL ''B'', a_token EOF DEFAULT_CHANNEL ''<EOF>'']"

text \<open>The same four tokens as a stream holds them, each with its index.\<close>

definition buffered :: "Token list" where
  "buffered =
     [(a_token 1 DEFAULT_CHANNEL ''A'')\<lparr>tokenIndex := 0\<rparr>,
      (a_token 2 HIDDEN_CHANNEL ''#comment'')\<lparr>tokenIndex := 1\<rparr>,
      (a_token 1 DEFAULT_CHANNEL ''B'')\<lparr>tokenIndex := 2\<rparr>,
      (a_token EOF DEFAULT_CHANNEL ''<EOF>'')\<lparr>tokenIndex := 3\<rparr>]"

text \<open>
  Two sets of integers that take integers of the same parity as equal: the first hashes
  an integer to itself, the second to its parity.
\<close>

definition by_parity :: "int Set" where
  "by_parity = new_Set (\<lambda>v. v) (\<lambda>a b. a mod 2 = b mod 2)"

definition parity_hashed :: "int Set" where
  "parity_hashed = new_Set (\<lambda>v. v mod 2) (\<lambda>a b. a mod 2 = b mod 2)"

text \<open>
  A set whose equality function is reflexive and transitive but not symmetric, and one
  whose equality function is reflexive and symmetric but not transitive (9 is equal to
  every value). Both hash every value to 0, so equal values have equal hashes.
\<close>

definition ordered :: "int Set" where
  "ordered = new_Set (\<lambda>v. 0) (\<lambda>a b. a \<le> b)"

definition wildcard :: "int Set" where
  "wildcard = new_Set (\<lambda>v. 0) (\<lambda>a b. a = b \<or> a = 9 \<or> b = 9)"

text \<open>
  The BufferedTokenStream over these tokens once \<^verbatim>\<open>fill()\<close> has run: all four tokens
  are in the buffer and the cursor is on the first.
\<close>

definition filled :: "Token list stream" where
  "filled =
     \<lparr>cls = BufferedTokenStream, tokenSource = [], tokens = buffered, index = 0,
      fetchedEOF = True, s_channel = JUndefined\<rparr>"

text \<open>
  A matching engine that reads to the end of the input and then fails, as on a literal
  that is never closed; its state is the list of the messages the listeners received.
  \<open>interp_consume\<close> advances the input by one symbol.
\<close>

definition unterminated :: "jsstring list collaborators" where
  "unterminated =
     \<lparr>match = (\<lambda>this.
         (Inl (RecognitionException LexerNoViableAltException),
          this\<lparr>l_input := map_option (\<lambda>input. InputStream_seek input (is_size input))
                             (l_input this)\<rparr>)),
      interp_consume = (\<lambda>this.
         case l_input this of
           None \<Rightarrow> (Inl (TypeError ''Cannot read properties of null (reading consume)''), this)
         | Some input \<Rightarrow>
             (case InputStream_consume input of
                Inl e \<Rightarrow> (Inl e, this)
              | Inr input \<Rightarrow> (Inr (), this\<lparr>l_input := Some input\<rparr>))),
      interp_line = (\<lambda>i. 1),
      interp_column = (\<lambda>i. 0),
      syntaxError = (\<lambda>line' column' msg e this.
         (Inr (), this\<lparr>l_interp := l_interp this @ [msg]\<rparr>))\<rparr>"

text \<open>A Lexer in its initial state over the two symbols of \<^verbatim>\<open>"a\<close>.\<close>

definition a_lexer :: "jsstring list Lexer" where
  "a_lexer =
     \<lparr>l_input = Some \<lparr>is_name = EMPTY, is_index = 0, strdata = [34, 97],
                       decodeToUnicodeCodePoints = False, is_data = [34, 97], is_size = 2\<rparr>,
      copyText = False, l_interp = [], l_token = None, l_tokenStartCharIndex = - 1,
      l_tokenStartLine = - 1, l_tokenStartColumn = - 1, l_hitEOF = False,
      l_channel = DEFAULT_CHANNEL, l_type = INVALID_TYPE, l_modeStack = [], l_mode = 0,
      l_text = None\<rparr>"

section \<open>Properties\<close>

subsection \<open>InputStream\<close>

lemma new_InputStream_code_units:
  "new_InputStream d False = Inl (ReferenceError ''streamSize'')"
  by (simp add: new_InputStream_def decodeCharacterCodes_def)

lemma new_InputStream_code_points:
  "d \<noteq> [] \<Longrightarrow> new_InputStream d True = Inl (ReferenceError ''stream'')"
  by (simp add: new_InputStream_def decodeUnicodeCodePoints_def)

text \<open>
  C1. Constructing an InputStream should succeed for every string and decode it. With
  the string \<^verbatim>\<open>a\<close> the constructor throws in both modes: a ReferenceError for
  \<^verbatim>\<open>streamSize\<close> in code-unit mode and for \<^verbatim>\<open>stream\<close> in code-point mode.
\<close>

theorem InputStream_construction_throws:
  "new_InputStream (codes ''a'') False = Inl (ReferenceError ''streamSize'') \<and>
   new_InputStream (codes ''a'') True = Inl (ReferenceError ''stream'')"
  by (simp add: new_InputStream_def decodeCharacterCodes_def decodeUnicodeCodePoints_def codes_def)

subsection \<open>CommonTokenFactory\<close>

lemma create_without_text:
  "create False src ty None ch st sp ln col =
     Inr \<lparr>source = src, type = ty, channel = JNull, start = ch, stop = sp,
          tokenIndex = - 1, line = Some ln, column = Some col, text' = None\<rparr>"
  by (simp add: create_def new_CommonToken_def split: option.split prod.split)

lemma create_with_text:
  "\<exists>m. create copy src ty (Some t) ch st sp ln col = Inl (TypeError m)"
  by (simp add: create_def set_text_def)

text \<open>
  C2. The token that \<^verbatim>\<open>create\<close> returns should carry the arguments \<^verbatim>\<open>channel\<close> and
  \<^verbatim>\<open>start\<close> in its fields. For type 5, no text, channel 0, start 3, stop 5, line 1
  and column 3 the token has \<^verbatim>\<open>channel = null\<close> (the text argument) and
  \<^verbatim>\<open>start = 0\<close> (the channel argument); the other fields are as the claim says.
\<close>

theorem create_misplaces_channel_and_start:
  "create False (None, None) 5 None 0 3 5 1 3 =
     Inr \<lparr>source = (None, None), type = 5, channel = JNull, start = 0, stop = 5,
          tokenIndex = - 1, line = Some 1, column = Some 3, text' = None\<rparr>"
  by (simp add: create_def new_CommonToken_def)

subsection \<open>Lexer\<close>

lemma recover_at_end_of_input:
  "l_input this = Some input \<Longrightarrow> is_size input \<le> is_index input \<Longrightarrow>
   recover ext re this = (Inl (Error (Literal ''cannot consume EOF'')), this)"
  by (simp add: recover_def InputStream_LA_def InputStream_consume_def)

lemma try_match_at_end_of_input:
  assumes "match ext this = (Inl (RecognitionException re), that)"
    and "notifyListeners ext re that = (Inr (), that')"
    and "l_input that' = Some input" and "is_size input \<le> is_index input"
  shows "try_match ext this = (Inl (Error (Literal ''cannot consume EOF'')), that')"
  using assms recover_at_end_of_input [OF assms(3,4), of ext re]
  by (simp add: try_match_def)

lemma recover_other_failure_consumes_nothing:
  "l_input this = Some input \<Longrightarrow> InputStream_LA input 1 \<noteq> Some EOF \<Longrightarrow>
   re \<noteq> LexerNoViableAltException \<Longrightarrow> recover ext re this = (Inr (), this)"
  by (simp add: recover_def)

text \<open>
  C3. A recognition failure inside \<^verbatim>\<open>nextToken\<close> should be reported, recovered from
  and never reach the caller, also at the end of the input. Over the input \<^verbatim>\<open>"a\<close>
  the matching engine reads both symbols and fails: the listeners get their message,
  then \<^verbatim>\<open>recover\<close> finds the input at its end and calls \<^verbatim>\<open>_input.consume()\<close>, whose
  Error leaves \<^verbatim>\<open>nextToken\<close>. One unit of fuel is enough, and more changes nothing.
\<close>

theorem nextToken_throws_recovering_at_end:
  "map_option fst (nextToken unterminated (Suc fuel) a_lexer) =
     Some (Inl (Error (Literal ''cannot consume EOF''))) \<and>
   map_option (\<lambda>r. l_interp (snd r)) (nextToken unterminated (Suc fuel) a_lexer) =
     Some [codes ''token recognition error at: '' @ [34, 97]]"
  by (simp add: nextToken_def a_lexer_def unterminated_def try_match_def notifyListeners_def
      recover_def InputStream_getText_def InputStream_seek_def InputStream_LA_def
      InputStream_consume_def slice_def getErrorDisplay_def)

subsection \<open>BufferedTokenStream: the buffer invariant\<close>

lemma buffer_ok_new: "buffer_ok (new_BufferedTokenStream src)"
  by (simp add: buffer_ok_def new_BufferedTokenStream_def)

lemma buffer_ok_one_EOF:
  assumes "buffer_ok this"
  shows "length (filter (\<lambda>t. type t = EOF) (tokens this)) \<le> 1"
proof (cases "tokens this" rule: rev_cases)
  case Nil
  then show ?thesis by simp
next
  case (snoc ts t)
  then have "\<forall>t \<in> set ts. type t \<noteq> EOF"
    using assms by (simp add: buffer_ok_def)
  then have "filter (\<lambda>t. type t = EOF) ts = []"
    by (simp add: filter_empty_conv)
  then show ?thesis using snoc by simp
qed

lemma fetch_after_EOF: "fetchedEOF this \<Longrightarrow> fetch nt n this = (Inr 0, this)"
  by (simp add: fetch_def)

lemma fetch_loop_done: "\<not> i < n \<Longrightarrow> fetch_loop nt i n this = (Inr n, this)"
  by (subst fetch_loop.simps) simp

lemma fetch_loop_throws:
  "i < n \<Longrightarrow> nt (tokenSource this) = (Inl e, src) \<Longrightarrow>
   fetch_loop nt i n this = (Inl e, this\<lparr>tokenSource := src\<rparr>)"
  by (subst fetch_loop.simps) simp

lemma fetch_loop_EOF:
  "i < n \<Longrightarrow> nt (tokenSource this) = (Inr token, src) \<Longrightarrow> type token = EOF \<Longrightarrow>
   fetch_loop nt i n this =
     (Inr (i + 1),
      this\<lparr>tokenSource := src,
           tokens := tokens this @ [token\<lparr>tokenIndex := int (length (tokens this))\<rparr>],
           fetchedEOF := True\<rparr>)"
  by (subst fetch_loop.simps) simp

lemma fetch_loop_next:
  "i < n \<Longrightarrow> nt (tokenSource this) = (Inr token, src) \<Longrightarrow> type token \<noteq> EOF \<Longrightarrow>
   fetch_loop nt i n this =
     fetch_loop nt (i + 1) n
       (this\<lparr>tokenSource := src,
             tokens := tokens this @ [token\<lparr>tokenIndex := int (length (tokens this))\<rparr>]\<rparr>)"
  by (subst fetch_loop.simps) simp

lemma buffer_ok_tokenSource [simp]: "buffer_ok (this\<lparr>tokenSource := src\<rparr>) = buffer_ok this"
  by (simp add: buffer_ok_def)

lemma no_EOF_buffered:
  assumes "buffer_ok this" and "\<not> fetchedEOF this"
  shows "\<forall>t \<in> set (tokens this). type t \<noteq> EOF"
proof (cases "tokens this" rule: rev_cases)
  case Nil
  then show ?thesis by simp
next
  case (snoc ts t)
  then show ?thesis using assms by (auto simp: buffer_ok_def)
qed

lemma buffer_ok_append_EOF:
  "\<forall>t \<in> set (tokens this). type t \<noteq> EOF \<Longrightarrow> type tok = EOF \<Longrightarrow>
   buffer_ok (this\<lparr>tokenSource := src, tokens := tokens this @ [tok], fetchedEOF := True\<rparr>)"
  by (simp add: buffer_ok_def)

lemma buffer_ok_append:
  "\<forall>t \<in> set (tokens this). type t \<noteq> EOF \<Longrightarrow> \<not> fetchedEOF this \<Longrightarrow> type tok \<noteq> EOF \<Longrightarrow>
   buffer_ok (this\<lparr>tokenSource := src, tokens := tokens this @ [tok]\<rparr>)"
  by (simp add: buffer_ok_def)

lemma fetch_loop_spec:
  assumes "fetch_loop nt i n this = (r, this')" and "buffer_ok this" and "\<not> fetchedEOF this"
  shows "buffer_ok this' \<and>
    (\<exists>new. tokens this' = tokens this @ new \<and> int (length new) \<le> max 0 (n - i) \<and>
       (\<forall>k. r = Inr k \<longrightarrow> k = (if fetchedEOF this' then i + int (length new) else n)))"
  using assms
proof (induction "nat (n - i)" arbitrary: i this)
  case 0
  from "0.hyps" have "\<not> i < n" by simp
  then have "r = Inr n" "this' = this"
    using "0.prems"(1) by (simp_all add: fetch_loop_done)
  then show ?case
    using "0.prems"(2,3) \<open>\<not> i < n\<close> by simp
next
  case (Suc m)
  from Suc.hyps(2) have lt: "i < n" and m: "m = nat (n - (i + 1))" by simp_all
  obtain res src where nt: "nt (tokenSource this) = (res, src)"
    by (cases "nt (tokenSource this)")
  show ?case
  proof (cases res)
    case (Inl e)
    then have "r = Inl e" "this' = this\<lparr>tokenSource := src\<rparr>"
      using Suc.prems(1) lt nt by (simp_all add: fetch_loop_throws)
    then show ?thesis
      using Suc.prems(2) by simp
  next
    case (Inr token)
    let ?tok = "token\<lparr>tokenIndex := int (length (tokens this))\<rparr>"
    let ?s = "this\<lparr>tokenSource := src, tokens := tokens this @ [?tok]\<rparr>"
    have bl: "\<forall>t \<in> set (tokens this). type t \<noteq> EOF"
      using no_EOF_buffered [OF Suc.prems(2,3)] .
    show ?thesis
    proof (cases "type token = EOF")
      case True
      then have r: "r = Inr (i + 1)" and s: "this' = ?s\<lparr>fetchedEOF := True\<rparr>"
        using Suc.prems(1) lt nt Inr by (simp_all add: fetch_loop_EOF)
      have "buffer_ok this'"
        unfolding s using buffer_ok_append_EOF [OF bl, of ?tok src] True by simp
      moreover have "tokens this' = tokens this @ [?tok]" "fetchedEOF this'"
        by (simp_all add: s)
      ultimately show ?thesis
        using r lt by (intro conjI exI [of _ "[?tok]"]) simp_all
    next
      case False
      then have step: "fetch_loop nt (i + 1) n ?s = (r, this')"
        using Suc.prems(1) lt nt Inr by (simp add: fetch_loop_next)
      have ok: "buffer_ok ?s"
        using buffer_ok_append [OF bl Suc.prems(3), of ?tok src] False by simp
      have nf: "\<not> fetchedEOF ?s" using Suc.prems(3) by simp
      have IH: "buffer_ok this' \<and>
        (\<exists>new. tokens this' = tokens ?s @ new \<and> int (length new) \<le> max 0 (n - (i + 1)) \<and>
           (\<forall>k. r = Inr k \<longrightarrow> k = (if fetchedEOF this' then i + 1 + int (length new) else n)))"
        using Suc.hyps(1) [OF m step ok nf] .
      then obtain new where new: "tokens this' = tokens ?s @ new"
        "int (length new) \<le> max 0 (n - (i + 1))"
        "\<forall>k. r = Inr k \<longrightarrow> k = (if fetchedEOF this' then i + 1 + int (length new) else n)"
        by (elim conjE exE)
      have a: "tokens this' = tokens this @ (?tok # new)" using new(1) by simp
      have b: "int (length (?tok # new)) \<le> max 0 (n - i)"
        using new(2) lt by simp
      have len: "i + int (length (?tok # new)) = i + 1 + int (length new)"
        by simp
      have c: "\<forall>k. r = Inr k \<longrightarrow> k = (if fetchedEOF this' then i + int (length (?tok # new)) else n)"
        unfolding len using new(3) .
      have "buffer_ok this'" using IH by (rule conjunct1)
      then show ?thesis
        using a b c by (intro conjI exI [of _ "?tok # new"])
    qed
  qed
qed

text \<open>
  \<^verbatim>\<open>fetch(n)\<close> keeps the buffer well formed, only appends, appends at most \<open>n\<close> tokens,
  and returns the number of tokens appended when it stopped at an EOF token and \<open>n\<close>
  otherwise.
\<close>

lemma fetch_spec:
  assumes "fetch nt n this = (r, this')" and "buffer_ok this"
  shows "buffer_ok this' \<and>
    (\<exists>new. tokens this' = tokens this @ new \<and> int (length new) \<le> max 0 n \<and>
       (fetchedEOF this \<longrightarrow> new = [] \<and> r = Inr 0) \<and>
       (\<not> fetchedEOF this \<longrightarrow>
          (\<forall>k. r = Inr k \<longrightarrow> k = (if fetchedEOF this' then int (length new) else n))))"
proof (cases "fetchedEOF this")
  case True
  then show ?thesis using assms by (auto simp: fetch_def)
next
  case False
  then have "fetch_loop nt 0 n this = (r, this')"
    using assms(1) by (simp add: fetch_def)
  from fetch_loop_spec [OF this assms(2) False] show ?thesis
    using False by auto
qed

lemma sync_buffer_ok:
  assumes "sync nt i this = (r, this')" and "buffer_ok this"
  shows "buffer_ok this'"
proof (cases "0 < i - int (length (tokens this)) + 1")
  case False
  then show ?thesis using assms by (simp add: sync_def)
next
  case True
  obtain r' s' where f: "fetch nt (i - int (length (tokens this)) + 1) this = (r', s')"
    by (cases "fetch nt (i - int (length (tokens this)) + 1) this")
  have "this' = s'"
    using assms(1) True f by (cases r') (simp_all add: sync_def)
  then show ?thesis
    using fetch_spec [OF f assms(2)] by simp
qed

lemma then_run_keeps:
  assumes "then_run m f = Some (r, s')"
    and "\<And>r s. m = Some (r, s) \<Longrightarrow> Q s"
    and "\<And>a s. m = Some (Inr a, s) \<Longrightarrow> Q s \<Longrightarrow> f a s = Some (r, s') \<Longrightarrow> Q s'"
  shows "Q s'"
proof (cases m)
  case None
  then show ?thesis using assms(1) by (simp add: then_run_def)
next
  case (Some p)
  obtain x s where p: "p = (x, s)" by (cases p)
  show ?thesis
  proof (cases x)
    case (Inl e)
    then show ?thesis using assms(1,2) Some p by (simp add: then_run_def)
  next
    case (Inr a)
    then have "f a s = Some (r, s')" using assms(1) Some p by (simp add: then_run_def)
    then show ?thesis using assms(2,3) Some p Inr by blast
  qed
qed

lemma buffer_ok_index [simp]: "buffer_ok (this\<lparr>index := i\<rparr>) = buffer_ok this"
  by (simp add: buffer_ok_def)

lemma nextTokenOnChannel_loop_buffer_ok:
  "nextTokenOnChannel_loop nt fuel i token this = Some (r, this') \<Longrightarrow> buffer_ok this \<Longrightarrow>
   buffer_ok this'"
proof (induction fuel arbitrary: i token this)
  case 0
  then show ?case by simp
next
  case (Suc fuel)
  show ?case
  proof (cases token)
    case None
    then show ?thesis using Suc.prems by simp
  next
    case (Some t)
    show ?thesis
    proof (cases "channel t \<noteq> s_channel this \<and> type t \<noteq> EOF")
      case False
      then show ?thesis using Suc.prems Some by (auto split: if_splits)
    next
      case True
      obtain x s where sy: "sync nt (i + 1) this = (x, s)" by (cases "sync nt (i + 1) this")
      have ok: "buffer_ok s" using sync_buffer_ok [OF sy Suc.prems(2)] .
      show ?thesis
      proof (cases x)
        case (Inl e)
        then show ?thesis using Suc.prems(1) Some True sy ok by simp
      next
        case (Inr b)
        then have "nextTokenOnChannel_loop nt fuel (i + 1) (at (tokens s) (i + 1)) s = Some (r, this')"
          using Suc.prems(1) Some True sy by simp
        then show ?thesis using Suc.IH ok by blast
      qed
    qed
  qed
qed

lemma nextTokenOnChannel_buffer_ok:
  assumes "nextTokenOnChannel nt fuel i ch this = Some (r, this')" and "buffer_ok this"
  shows "buffer_ok this'"
proof -
  obtain x s where sy: "sync nt i this = (x, s)" by (cases "sync nt i this")
  have ok: "buffer_ok s" using sync_buffer_ok [OF sy assms(2)] .
  show ?thesis
  proof (cases x)
    case (Inl e)
    then show ?thesis using assms(1) sy ok by (simp add: nextTokenOnChannel_def)
  next
    case (Inr b)
    then show ?thesis
      using assms(1) sy ok nextTokenOnChannel_loop_buffer_ok [of nt fuel i "at (tokens s) i" s r this']
      by (simp add: nextTokenOnChannel_def split: if_splits)
  qed
qed

lemma adjustSeekIndex_buffer_ok:
  "adjustSeekIndex nt fuel i this = Some (r, this') \<Longrightarrow> buffer_ok this \<Longrightarrow> buffer_ok this'"
  by (cases "cls this") (auto simp: adjustSeekIndex_def dest: nextTokenOnChannel_buffer_ok)

lemma returns_sync_buffer_ok:
  "returns (sync nt i this) = Some (r, this') \<Longrightarrow> buffer_ok this \<Longrightarrow> buffer_ok this'"
  by (auto simp: returns_def dest: sync_buffer_ok)

lemma lazyInit_buffer_ok:
  assumes "lazyInit nt fuel this = Some (r, this')" and "buffer_ok this"
  shows "buffer_ok this'"
proof (cases "index this = - 1")
  case False
  then show ?thesis using assms by (simp add: lazyInit_def)
next
  case True
  then have "setup' nt fuel this = Some (r, this')"
    using assms(1) by (simp add: lazyInit_def)
  then show ?thesis
    unfolding setup'_def
    by (rule then_run_keeps)
       (auto intro: returns_sync_buffer_ok [OF _ assms(2)]
             elim!: then_run_keeps dest: adjustSeekIndex_buffer_ok)
qed

lemma seek_buffer_ok:
  assumes "seek nt fuel i this = Some (r, this')" and "buffer_ok this"
  shows "buffer_ok this'"
  using assms(1) unfolding seek_def
  by (rule then_run_keeps)
     (auto intro: lazyInit_buffer_ok [OF _ assms(2)]
           elim!: then_run_keeps dest: adjustSeekIndex_buffer_ok)

lemma fill_loop_buffer_ok:
  "fill_loop nt fuel this = Some (r, this') \<Longrightarrow> buffer_ok this \<Longrightarrow> buffer_ok this'"
proof (induction fuel arbitrary: this)
  case 0
  then show ?case by simp
next
  case (Suc fuel)
  obtain x s where f: "fetch nt 1000 this = (x, s)" by (cases "fetch nt 1000 this")
  have ok: "buffer_ok s" using fetch_spec [OF f Suc.prems(2)] by simp
  show ?case
  proof (cases x)
    case (Inl e)
    then show ?thesis using Suc.prems(1) f ok by simp
  next
    case (Inr n)
    then show ?thesis
      using Suc.prems(1) f ok Suc.IH [of s] by (simp split: if_splits)
  qed
qed

lemma fill_buffer_ok:
  assumes "fill nt fuel this = Some (r, this')" and "buffer_ok this"
  shows "buffer_ok this'"
  using assms(1) unfolding fill_def
  by (rule then_run_keeps)
     (auto intro: lazyInit_buffer_ok [OF _ assms(2)] dest: fill_loop_buffer_ok)

lemma LT_loop_buffer_ok:
  "LT_loop nt fuel n k i this = Some (r, this') \<Longrightarrow> buffer_ok this \<Longrightarrow> buffer_ok this'"
proof (induction "nat (k - n)" arbitrary: n i this)
  case 0
  from "0.hyps" have "\<not> n < k" by simp
  then show ?case using "0.prems" by (subst (asm) LT_loop.simps) simp
next
  case (Suc m)
  from Suc.hyps(2) have lt: "n < k" and m: "m = nat (k - (n + 1))" by simp_all
  obtain x s where sy: "sync nt (i + 1) this = (x, s)" by (cases "sync nt (i + 1) this")
  have ok: "buffer_ok s" using sync_buffer_ok [OF sy Suc.prems(2)] .
  have unfold: "LT_loop nt fuel n k i this =
     (case x of
        Inl e \<Rightarrow> Some (Inl e, s)
      | Inr True \<Rightarrow>
          (case nextTokenOnChannel nt fuel (i + 1) (s_channel s) s of
             None \<Rightarrow> None
           | Some (Inl e, this) \<Rightarrow> Some (Inl e, this)
           | Some (Inr j, this) \<Rightarrow> LT_loop nt fuel (n + 1) k j this)
      | Inr False \<Rightarrow> LT_loop nt fuel (n + 1) k i s)"
    using lt sy by (subst LT_loop.simps) (simp split: sum.split bool.split)
  show ?case
  proof (cases x)
    case (Inl e)
    then show ?thesis using Suc.prems(1) unfold ok by simp
  next
    case (Inr b)
    show ?thesis
    proof (cases b)
      case False
      then have "LT_loop nt fuel (n + 1) k i s = Some (r, this')"
        using Suc.prems(1) unfold Inr by simp
      then show ?thesis using Suc.hyps(1) [OF m _ ok] by blast
    next
      case True
      show ?thesis
      proof (cases "nextTokenOnChannel nt fuel (i + 1) (s_channel s) s")
        case None
        then show ?thesis using Suc.prems(1) unfold Inr True by simp
      next
        case (Some p)
        obtain y s2 where p: "p = (y, s2)" by (cases p)
        have ok2: "buffer_ok s2"
          using nextTokenOnChannel_buffer_ok [OF _ ok] Some p by blast
        show ?thesis
        proof (cases y)
          case (Inl e)
          then show ?thesis using Suc.prems(1) unfold Inr True Some p ok2 by simp
        next
          case (Inr j)
          then have "LT_loop nt fuel (n + 1) k j s2 = Some (r, this')"
            using Suc.prems(1) unfold \<open>x = Inr b\<close> True Some p by simp
          then show ?thesis using Suc.hyps(1) [OF m _ ok2] by blast
        qed
      qed
    qed
  qed
qed

lemma LT_buffer_ok:
  fixes this :: "'l stream"
  assumes "LT nt fuel k this = Some (r, this')" and "buffer_ok this"
  shows "buffer_ok this'"
  using assms(1) unfolding LT_def
proof (rule then_run_keeps)
  fix r and s :: "'l stream"
  assume "lazyInit nt fuel this = Some (r, s)"
  then show "buffer_ok s" using lazyInit_buffer_ok assms(2) by blast
next
  fix a and s :: "'l stream"
  assume ok: "buffer_ok s"
  assume body: "(case cls s of
       BufferedTokenStream \<Rightarrow>
         if k = 0 then Some (LB s (- k), s)
         else let i = index s + k - 1
              in then_run (returns (sync nt i s))
                   (\<lambda>ok this.
                      if int (length (tokens this)) \<le> i
                      then Some (Inr (at (tokens this) (int (length (tokens this)) - 1)), this)
                      else Some (Inr (at (tokens this) i), this))
     | CommonTokenStream \<Rightarrow>
         if k = 0 then Some (Inr None, s)
         else if k < 0 then Some (LB s (- k), s)
         else then_run (LT_loop nt fuel 1 k (index s) s)
                (\<lambda>i this. Some (Inr (at (tokens this) i), this))) = Some (r, this')"
  show "buffer_ok this'"
  proof (cases "cls s")
    case BufferedTokenStream
    show ?thesis
    proof (cases "k = 0")
      case True
      then show ?thesis using body BufferedTokenStream ok by simp
    next
      case False
      then have "then_run (returns (sync nt (index s + k - 1) s))
                   (\<lambda>ok this.
                      if int (length (tokens this)) \<le> index s + k - 1
                      then Some (Inr (at (tokens this) (int (length (tokens this)) - 1)), this)
                      else Some (Inr (at (tokens this) (index s + k - 1)), this)) = Some (r, this')"
        using body BufferedTokenStream by (simp add: Let_def)
      then show ?thesis
        by (rule then_run_keeps)
           (auto intro: returns_sync_buffer_ok [OF _ ok] split: if_splits)
    qed
  next
    case CommonTokenStream
    show ?thesis
    proof (cases "k \<le> 0")
      case True
      then show ?thesis using body CommonTokenStream ok by (auto split: if_splits)
    next
      case False
      then have "then_run (LT_loop nt fuel 1 k (index s) s)
                (\<lambda>i this. Some (Inr (at (tokens this) i), this)) = Some (r, this')"
        using body CommonTokenStream by simp
      then show ?thesis
        by (rule then_run_keeps) (auto dest: LT_loop_buffer_ok [OF _ ok])
    qed
  qed
qed

lemma LA_buffer_ok:
  assumes "LA nt fuel k this = Some (r, this')" and "buffer_ok this"
  shows "buffer_ok this'"
  using assms(1) unfolding LA_def
  by (rule then_run_keeps)
     (auto intro: LT_buffer_ok [OF _ assms(2)] split: option.splits)

lemma consume_buffer_ok:
  fixes this :: "'l stream"
  assumes "consume nt fuel this = Some (r, this')" and "buffer_ok this"
  shows "buffer_ok this'"
  using assms(1) unfolding consume_def Let_def
proof (rule then_run_keeps)
  fix r and s :: "'l stream"
  assume "(if if 0 \<le> index this
             then if fetchedEOF this
                  then (if index this < int (length (tokens this)) then 1 else 0) - 1 \<noteq> (0 :: int)
                  else index this < int (length (tokens this))
             else False
          then Some (Inr False, this)
          else then_run (LA nt fuel 1 this) (\<lambda>t this. Some (Inr (t = EOF), this))) = Some (r, s)"
  then show "buffer_ok s"
    using assms(2)
    by (auto split: if_splits elim!: then_run_keeps dest: LA_buffer_ok)
next
  fix a and s :: "'l stream"
  assume ok: "buffer_ok s"
  assume "(if a then Some (Inl (Error (Literal ''cannot consume EOF'')), s)
        else then_run (returns (sync nt (index s + 1) s))
               (\<lambda>ok this.
                  if ok
                  then then_run (adjustSeekIndex nt fuel (index this + 1) this)
                         (\<lambda>i this. Some (Inr (), this\<lparr>index := i\<rparr>))
                  else Some (Inr (), this))) = Some (r, this')"
  then show "buffer_ok this'"
    using ok
    by (auto split: if_splits elim!: then_run_keeps
             dest: returns_sync_buffer_ok adjustSeekIndex_buffer_ok)
qed

lemma getText_buffer_ok:
  assumes "getText nt fuel interval this = Some (r, this')" and "buffer_ok this"
  shows "buffer_ok this'"
  using assms(1) unfolding getText_def
  by (rule then_run_keeps)
     (auto intro: lazyInit_buffer_ok [OF _ assms(2)] elim!: then_run_keeps
           dest: fill_buffer_ok split: if_splits option.splits prod.splits simp: Let_def)

lemma getHiddenTokensToLeft_buffer_ok:
  assumes "getHiddenTokensToLeft nt fuel i ch this = Some (r, this')" and "buffer_ok this"
  shows "buffer_ok this'"
  using assms(1) unfolding getHiddenTokensToLeft_def Let_def
  by (rule then_run_keeps)
     (auto intro: lazyInit_buffer_ok [OF _ assms(2)] split: if_splits sum.splits)

lemma get_buffer_ok:
  assumes "get nt fuel i this = Some (r, this')" and "buffer_ok this"
  shows "buffer_ok this'"
  using assms(1) unfolding get_def
  by (rule then_run_keeps) (auto intro: lazyInit_buffer_ok [OF _ assms(2)])

lemma reset_buffer_ok:
  "reset nt fuel this = Some (r, this') \<Longrightarrow> buffer_ok this \<Longrightarrow> buffer_ok this'"
  unfolding reset_def by (rule seek_buffer_ok)

lemma setTokenSource_buffer_ok: "buffer_ok (setTokenSource src this)"
  by (simp add: setTokenSource_def buffer_ok_def)

lemma getHiddenTokensToRigh_buffer_ok:
  assumes "getHiddenTokensToRigh nt fuel i ch this = Some (r, this')" and "buffer_ok this"
  shows "buffer_ok this'"
  using assms(1) unfolding getHiddenTokensToRigh_def Let_def
  by (rule then_run_keeps)
     (auto intro: lazyInit_buffer_ok [OF _ assms(2)] elim!: then_run_keeps
           dest: nextTokenOnChannel_buffer_ok split: if_splits)

subsection \<open>BufferedTokenStream: hidden tokens and token ranges\<close>

lemma previousTokenOnChannel_spec:
  assumes "- 1 \<le> i" and "i < int (length ts)"
  shows "\<exists>j. previousTokenOnChannel ts i ch = Inr j \<and> - 1 \<le> j \<and> j \<le> i \<and>
           (0 \<le> j \<longrightarrow> channel (ts ! nat j) = ch) \<and>
           (\<forall>m. j < m \<and> m \<le> i \<longrightarrow> channel (ts ! nat m) \<noteq> ch)"
  using assms
proof (induction "nat (i + 1)" arbitrary: i)
  case 0
  from "0.hyps" "0.prems"(1) have "i = - 1" by simp
  moreover have "\<forall>m. (- 1 :: int) < m \<and> m \<le> - 1 \<longrightarrow> channel (ts ! nat m) \<noteq> ch"
    by auto
  moreover have "previousTokenOnChannel ts (- 1) ch = Inr (- 1)"
    by (subst previousTokenOnChannel.simps) simp
  ultimately show ?case
    by (intro exI [of _ "- 1"]) simp
next
  case (Suc n)
  from Suc.hyps(2) have i: "0 \<le> i" and n: "n = nat (i - 1 + 1)" by simp_all
  have at: "at ts i = Some (ts ! nat i)"
    using i Suc.prems(2) by (simp add: at_def)
  show ?case
  proof (cases "channel (ts ! nat i) = ch")
    case True
    then have "previousTokenOnChannel ts i ch = Inr i"
      using i at by (subst previousTokenOnChannel.simps) simp
    moreover have "\<forall>m. i < m \<and> m \<le> i \<longrightarrow> channel (ts ! nat m) \<noteq> ch"
      by auto
    ultimately show ?thesis
      using i True by (intro exI [of _ i]) simp
  next
    case False
    then have step: "previousTokenOnChannel ts i ch = previousTokenOnChannel ts (i - 1) ch"
      using i at by (subst previousTokenOnChannel.simps) simp
    have "\<exists>j. previousTokenOnChannel ts (i - 1) ch = Inr j \<and> - 1 \<le> j \<and> j \<le> i - 1 \<and>
           (0 \<le> j \<longrightarrow> channel (ts ! nat j) = ch) \<and>
           (\<forall>m. j < m \<and> m \<le> i - 1 \<longrightarrow> channel (ts ! nat m) \<noteq> ch)"
      by (rule Suc.hyps(1) [OF n]) (use i Suc.prems(2) in simp_all)
    then obtain j where j: "previousTokenOnChannel ts (i - 1) ch = Inr j" "- 1 \<le> j" "j \<le> i - 1"
      "0 \<le> j \<longrightarrow> channel (ts ! nat j) = ch"
      "\<forall>m. j < m \<and> m \<le> i - 1 \<longrightarrow> channel (ts ! nat m) \<noteq> ch"
      by blast
    have "\<forall>m. j < m \<and> m \<le> i \<longrightarrow> channel (ts ! nat m) \<noteq> ch"
    proof (intro allI impI)
      fix m
      assume m: "j < m \<and> m \<le> i"
      show "channel (ts ! nat m) \<noteq> ch"
      proof (cases "m = i")
        case True
        then show ?thesis using False by simp
      next
        case False
        then have "j < m \<and> m \<le> i - 1" using m by simp
        then show ?thesis using j(5) by blast
      qed
    qed
    then show ?thesis
      using step j(1-4) by (intro exI [of _ j]) simp
  qed
qed

lemma filterForChannel_loop_spec:
  assumes "0 \<le> left" and "right < int (length ts)"
  shows "filterForChannel_loop ts left right ch hidden =
           Inr (hidden @ filter (wanted ch) (map (\<lambda>m. ts ! nat m) [left..right]))"
  using assms
proof (induction "nat (right + 1 - left)" arbitrary: left hidden)
  case 0
  from "0.hyps" have "\<not> left < right + 1" by simp
  then show ?case by (subst filterForChannel_loop.simps) simp
next
  case (Suc n)
  from Suc.hyps(2) have lt: "left < right + 1" and n: "n = nat (right + 1 - (left + 1))"
    by simp_all
  have at: "at ts left = Some (ts ! nat left)"
    using lt Suc.prems by (simp add: at_def)
  have up: "[left..right] = left # [left + 1..right]"
    using lt by (simp add: upto_rec1)
  have "filterForChannel_loop ts left right ch hidden =
        filterForChannel_loop ts (left + 1) right ch
          (if wanted ch (ts ! nat left) then hidden @ [ts ! nat left] else hidden)"
    using lt at by (subst filterForChannel_loop.simps) (simp add: wanted_def)
  also have "\<dots> = Inr ((if wanted ch (ts ! nat left) then hidden @ [ts ! nat left] else hidden) @
        filter (wanted ch) (map (\<lambda>m. ts ! nat m) [left + 1..right]))"
    using Suc.hyps(1) [OF n] Suc.prems by simp
  finally show ?case
    unfolding up by simp
qed

text \<open>
  In an initialised stream, when the nearest default-channel token to the left of
  \<open>i\<close> is the token at index 0, \<^verbatim>\<open>getHiddenTokensToLeft(i)\<close> returns \<^verbatim>\<open>null\<close>,
  whatever lies between; in every other case it returns the wanted tokens strictly
  between that token and \<open>i\<close>.
\<close>

lemma getHiddenTokensToLeft_boundary_0:
  assumes "index this \<noteq> - 1" and "0 < i" and "i < int (length (tokens this))"
    and "channel (tokens this ! 0) = JNumber DEFAULT_CHANNEL"
    and "\<forall>m. 0 < m \<and> m < i \<longrightarrow> channel (tokens this ! nat m) \<noteq> JNumber DEFAULT_CHANNEL"
  shows "getHiddenTokensToLeft nt fuel i ch this = Some (Inr None, this)"
proof -
  have "\<exists>j. previousTokenOnChannel (tokens this) (i - 1) (JNumber DEFAULT_CHANNEL) = Inr j \<and>
      - 1 \<le> j \<and> j \<le> i - 1 \<and>
      (0 \<le> j \<longrightarrow> channel (tokens this ! nat j) = JNumber DEFAULT_CHANNEL) \<and>
      (\<forall>m. j < m \<and> m \<le> i - 1 \<longrightarrow> channel (tokens this ! nat m) \<noteq> JNumber DEFAULT_CHANNEL)"
    by (rule previousTokenOnChannel_spec) (use assms(2,3) in simp_all)
  then obtain j where j: "previousTokenOnChannel (tokens this) (i - 1) (JNumber DEFAULT_CHANNEL) = Inr j"
    "- 1 \<le> j" "j \<le> i - 1" "0 \<le> j \<longrightarrow> channel (tokens this ! nat j) = JNumber DEFAULT_CHANNEL"
    "\<forall>m. j < m \<and> m \<le> i - 1 \<longrightarrow> channel (tokens this ! nat m) \<noteq> JNumber DEFAULT_CHANNEL"
    by blast
  have "0 \<le> j"
  proof (rule ccontr)
    assume "\<not> 0 \<le> j"
    then have "j < 0 \<and> 0 \<le> i - 1" using assms(2) by simp
    then have "channel (tokens this ! nat 0) \<noteq> JNumber DEFAULT_CHANNEL" using j(5) by blast
    then show False using assms(4) by simp
  qed
  moreover have "j \<le> 0"
  proof (rule ccontr)
    assume "\<not> j \<le> 0"
    then have "0 < j \<and> j < i" using j(3) by simp
    then have "channel (tokens this ! nat j) \<noteq> JNumber DEFAULT_CHANNEL" using assms(5) by blast
    then show False using j(4) \<open>0 \<le> j\<close> by simp
  qed
  ultimately have "j = 0" by simp
  then show ?thesis
    using j(1) assms(1,2,3) by (simp add: getHiddenTokensToLeft_def lazyInit_def then_run_def)
qed

lemma getHiddenTokensToLeft_elsewhere:
  assumes "index this \<noteq> - 1" and "0 \<le> i" and "i < int (length (tokens this))"
    and "previousTokenOnChannel (tokens this) (i - 1) (JNumber DEFAULT_CHANNEL) = Inr j"
    and "j \<noteq> 0"
  shows "getHiddenTokensToLeft nt fuel i ch this =
    Some (Inr (let ch = (if ch = JNull \<or> ch = JUndefined then JNumber (- 1) else ch);
                   hidden = filter (wanted ch) (map (\<lambda>m. tokens this ! nat m) [j + 1..i - 1])
               in if hidden = [] then None else Some hidden), this)"
proof -
  have "\<exists>j. previousTokenOnChannel (tokens this) (i - 1) (JNumber DEFAULT_CHANNEL) = Inr j \<and>
      - 1 \<le> j \<and> j \<le> i - 1 \<and>
      (0 \<le> j \<longrightarrow> channel (tokens this ! nat j) = JNumber DEFAULT_CHANNEL) \<and>
      (\<forall>m. j < m \<and> m \<le> i - 1 \<longrightarrow> channel (tokens this ! nat m) \<noteq> JNumber DEFAULT_CHANNEL)"
    by (rule previousTokenOnChannel_spec) (use assms(2,3) in simp_all)
  then have j: "- 1 \<le> j" using assms(4) by auto
  have loop: "filterForChannel_loop (tokens this) (j + 1) (i - 1) c [] =
      Inr (filter (wanted c) (map (\<lambda>m. tokens this ! nat m) [j + 1..i - 1]))" for c
    using filterForChannel_loop_spec [of "j + 1" "i - 1" "tokens this" c "[]"] j assms(3) by simp
  show ?thesis
    using assms(1,2,3,4,5)
    by (simp add: getHiddenTokensToLeft_def lazyInit_def then_run_def filterForChannel_def loop
        Let_def filter_map)
qed

lemma getTokens_loop_done: "\<not> i < stop' \<Longrightarrow> getTokens_loop i stop' types v acc = (Inr acc, v)"
  by (subst getTokens_loop.simps) simp

lemma getTokens_loop_no_array:
  assumes "getTokens_loop i stop' types v acc = (r, v')" and "\<forall>ts. v \<noteq> An_Array ts"
  shows "\<forall>ts. v' \<noteq> An_Array ts"
  using assms
proof (induction "nat (stop' - i)" arbitrary: i v acc)
  case 0
  from "0.hyps" have "\<not> i < stop'" by simp
  then have "v' = v" using "0.prems"(1) by (simp add: getTokens_loop_done)
  then show ?case using "0.prems"(2) by simp
next
  case (Suc n)
  from Suc.hyps(2) have lt: "i < stop'" and n: "n = nat (stop' - (i + 1))" by simp_all
  show ?case
  proof (cases v)
    case (An_Array ts)
    then show ?thesis using Suc.prems(2) by simp
  next
    case (A_Token t)
    then have "v' = Undefined_value"
      using Suc.prems(1) lt by (subst (asm) getTokens_loop.simps) (simp add: element_def)
    then show ?thesis by simp
  next
    case Undefined_value
    then have "v' = Undefined_value"
      using Suc.prems(1) lt by (subst (asm) getTokens_loop.simps) (simp add: element_def)
    then show ?thesis by simp
  qed
qed

text \<open>
  Whenever the loop of \<^verbatim>\<open>getTokens\<close> runs at all, the field \<^verbatim>\<open>this.tokens\<close> no longer
  holds an array afterwards.
\<close>

lemma getTokens_overwrites:
  assumes "index this \<noteq> - 1" and "0 \<le> start'" and "start' < stop'"
    and "stop' < int (length (tokens this))"
  shows "\<exists>r v. getTokens nt fuel start' stop' types this = Some (r, with_tokens this v) \<and>
           (\<forall>ts. v \<noteq> An_Array ts)"
proof -
  let ?t = "tokens this ! nat start'"
  have el: "element (An_Array (tokens this)) start' = Inr (Some ?t)"
    using assms(2,3,4) by (simp add: element_def at_def)
  obtain r v where loop: "getTokens_loop start' stop' types (An_Array (tokens this)) [] = (r, v)"
    by (cases "getTokens_loop start' stop' types (An_Array (tokens this)) []")
  have "\<forall>ts. v \<noteq> An_Array ts"
  proof (cases "type ?t = EOF")
    case True
    then have "v = A_Token ?t"
      using loop assms(3) el by (subst (asm) getTokens_loop.simps) simp
    then show ?thesis by simp
  next
    case False
    then have "getTokens_loop (start' + 1) stop' types (A_Token ?t)
        (if (case types of None \<Rightarrow> True | Some contains \<Rightarrow> contains (type ?t)) then [] @ [?t] else [])
        = (r, v)"
      using loop assms(3) el by (subst (asm) getTokens_loop.simps) simp
    then show ?thesis
      by (rule getTokens_loop_no_array) simp
  qed
  moreover have "getTokens nt fuel start' stop' types this =
      Some (case r of Inl e \<Rightarrow> Inl e | Inr acc \<Rightarrow> Inr (Some acc), with_tokens this v)"
    using assms loop by (cases r) (simp_all add: getTokens_def lazyInit_def)
  ultimately show ?thesis by blast
qed

text \<open>\<^verbatim>\<open>getTokens(i, i)\<close> returns the empty array: the loop stops before \<^verbatim>\<open>stop\<close>.\<close>

lemma getTokens_single:
  assumes "index this \<noteq> - 1" and "0 \<le> i"
  shows "getTokens nt fuel i i types this = Some (Inr (Some []), with_tokens this (An_Array (tokens this)))"
  using assms by (simp add: getTokens_def lazyInit_def getTokens_loop_done)

subsection \<open>BufferedTokenStream: the examples\<close>

lemma filled_by_fill:
  "fill scripted 1 (new_BufferedTokenStream commented) = Some (Inr (), filled)"
  by (simp add: fill_def lazyInit_def setup'_def then_run_def returns_def sync_def fetch_def
      fetch_loop.simps adjustSeekIndex_def new_BufferedTokenStream_def commented_def
      buffered_def filled_def scripted_def a_token_def)

text \<open>
  C7. \<^verbatim>\<open>getHiddenTokensToLeft\<close> should return the hidden tokens between the nearest
  default-channel token on the left and \<^verbatim>\<open>tokenIndex\<close>, also when that token is at
  index 0. In the buffer \<open>A\<close>, \<open>#comment\<close>, \<open>B\<close>, \<open>EOF\<close> the token at index 1 is
  hidden and lies between \<open>A\<close> (index 0) and \<open>B\<close> (index 2); a scan of the range
  \<open>1..1\<close> finds it, yet the call for index 2 returns \<^verbatim>\<open>null\<close>.
\<close>

theorem getHiddenTokensToLeft_misses_boundary_0:
  "previousTokenOnChannel buffered 1 (JNumber DEFAULT_CHANNEL) = Inr 0 \<and>
   filterForChannel buffered 1 1 (JNumber (- 1)) = Inr (Some [buffered ! 1]) \<and>
   getHiddenTokensToLeft scripted 0 2 JNull filled = Some (Inr None, filled)"
  by (simp add: getHiddenTokensToLeft_def lazyInit_def then_run_def filled_def buffered_def
      a_token_def previousTokenOnChannel.simps at_def filterForChannel_def
      filterForChannel_loop.simps)

text \<open>
  C9. \<^verbatim>\<open>getTokens\<close> should leave the buffer as it was and return the tokens of the
  inclusive range. For the range 0..1 of the same buffer it returns the token at index 0
  alone and leaves \<^verbatim>\<open>this.tokens\<close> holding that token instead of the array; for the
  range 0..2 it throws a TypeError and leaves \<^verbatim>\<open>this.tokens\<close> undefined.
\<close>

theorem getTokens_overwrites_tokens:
  "getTokens scripted 0 0 1 None filled =
     Some (Inr (Some [buffered ! 0]), with_tokens filled (A_Token (buffered ! 0))) \<and>
   getTokens scripted 0 0 2 None filled =
     Some (Inl (TypeError ''Cannot read properties of undefined (reading type)''),
           with_tokens filled Undefined_value)"
  by (simp add: getTokens_def lazyInit_def filled_def buffered_def a_token_def
      getTokens_loop.simps element_def at_def with_tokens_def)

text \<open>
  C6. Every operation should keep the EOF token last in the buffer once
  \<^verbatim>\<open>fetchedEOF\<close> is true. \<^verbatim>\<open>fetch\<close> does (\<open>fetch_spec\<close>), and so do the operations
  built on it (the lemmas above). \<^verbatim>\<open>getTokens\<close> does not: starting from a new stream,
  \<^verbatim>\<open>fill()\<close> reaches a state with \<^verbatim>\<open>fetchedEOF\<close> true and the EOF token last; after
  \<^verbatim>\<open>getTokens(0, 1)\<close> in that state \<^verbatim>\<open>fetchedEOF\<close> is still true and \<^verbatim>\<open>this.tokens\<close>
  is the first token: there is no buffer any more.
\<close>

theorem getTokens_loses_the_buffer:
  "fill scripted 1 (new_BufferedTokenStream commented) = Some (Inr (), filled) \<and>
   fetchedEOF filled \<and> type (last (tokens filled)) = EOF \<and>
   (\<exists>r this. getTokens scripted 0 0 1 None filled = Some (r, this) \<and>
      fetchedEOF this \<and> tokens this = A_Token (buffered ! 0))"
proof -
  have "fetchedEOF filled \<and> type (last (tokens filled)) = EOF"
    by (simp add: filled_def buffered_def a_token_def)
  moreover have "\<exists>r this. getTokens scripted 0 0 1 None filled = Some (r, this) \<and>
      fetchedEOF this \<and> tokens this = A_Token (buffered ! 0)"
    by (simp add: getTokens_def lazyInit_def filled_def buffered_def a_token_def
        getTokens_loop.simps element_def at_def with_tokens_def)
  ultimately show ?thesis
    using filled_by_fill by blast
qed

subsection \<open>BufferedTokenStream: consume and lookahead\<close>

lemma consume_advances:
  "consume scripted 0 filled = Some (Inr (), filled\<lparr>index := 1\<rparr>)"
  by (simp add: consume_def LA_def LT_def lazyInit_def then_run_def returns_def sync_def
      adjustSeekIndex_def at_def filled_def buffered_def a_token_def)

lemma seek_to_EOF:
  "seek scripted 0 3 filled = Some (Inr (), filled\<lparr>index := 3\<rparr>)"
  by (simp add: seek_def lazyInit_def adjustSeekIndex_def then_run_def filled_def)

text \<open>
  C5. In a state where the EOF token has been fetched (\<^verbatim>\<open>fetchedEOF\<close> is true) and the
  cursor \<^verbatim>\<open>index\<close> is on a token of type EOF in the buffer, \<^verbatim>\<open>consume()\<close> throws
  the Error \<^verbatim>\<open>cannot consume EOF\<close> and leaves the whole stream, the cursor included,
  as it was. This holds for both classes of stream and takes no fuel.
\<close>

theorem consume_on_EOF_throws:
  assumes "fetchedEOF this" and "0 \<le> index this" and "index this < int (length (tokens this))"
    and "type (tokens this ! nat (index this)) = EOF"
  shows "consume nt fuel this = Some (Inl (Error (Literal ''cannot consume EOF'')), this)"
proof -
  have i: "index this \<noteq> - 1" using assms(2) by simp
  have sy: "sync nt (index this) this = (Inr True, this)"
    using assms(3) by (simp add: sync_def)
  have lt: "LT nt fuel 1 this = Some (Inr (Some (tokens this ! nat (index this))), this)"
    using i sy assms(2,3)
    by (cases "cls this") (simp_all add: LT_def lazyInit_def then_run_def returns_def at_def LT_loop.simps)
  have la: "LA nt fuel 1 this = Some (Inr EOF, this)"
    using lt assms(4) by (simp add: LA_def then_run_def)
  show ?thesis
    using assms(1,2,3) la by (simp add: consume_def then_run_def)
qed

theorem consume_on_EOF_throws_witness:
  "fetchedEOF (filled\<lparr>index := 3\<rparr>) \<and>
   type (tokens (filled\<lparr>index := 3\<rparr>) ! nat (index (filled\<lparr>index := 3\<rparr>))) = EOF \<and>
   consume scripted 0 (filled\<lparr>index := 3\<rparr>) =
     Some (Inl (Error (Literal ''cannot consume EOF'')), filled\<lparr>index := 3\<rparr>)"
  using consume_on_EOF_throws [of "filled\<lparr>index := 3\<rparr>" scripted 0]
  by (simp add: filled_def buffered_def a_token_def)

subsection \<open>CommonTokenStream: channel filtering\<close>

lemma get_text_tokenIndex [simp]: "get_text (t\<lparr>tokenIndex := i\<rparr>) = get_text t"
  by (auto simp: get_text_def Let_def split: option.split sum.split)

text \<open>
  C4. Let a token source produce \<open>A\<close> on the default channel, \<open>C\<close> on another
  channel, \<open>B\<close> on the default channel and then an EOF token \<open>E\<close>, and let the texts
  of the first three be \<open>a\<close>, \<open>c\<close> and \<open>b\<close>. On a new CommonTokenStream for the
  default channel, with fuel for two steps of its loops, \<^verbatim>\<open>LT(1)\<close> returns \<open>A\<close> and
  \<^verbatim>\<open>LT(2)\<close> returns \<open>B\<close> (each with the index the buffer gave it, 0 and 2), the
  cursor stays at 0, and \<^verbatim>\<open>getText()\<close> returns \<open>a @ c @ b\<close>: the text of the hidden
  token is still there.
\<close>

theorem channel_filtering:
  assumes "nt l0 = (Inr A, l1)" and "nt l1 = (Inr C, l2)"
    and "nt l2 = (Inr B, l3)" and "nt l3 = (Inr E, l4)"
    and "type A \<noteq> EOF" and "type C \<noteq> EOF" and "type B \<noteq> EOF" and "type E = EOF"
    and "channel A = JNumber DEFAULT_CHANNEL" and "channel C \<noteq> JNumber DEFAULT_CHANNEL"
    and "channel B = JNumber DEFAULT_CHANNEL"
    and "get_text A = Inr (Some a)" and "get_text C = Inr (Some c)" and "get_text B = Inr (Some b)"
    and "2 \<le> fuel"
  shows "\<exists>s1 s2 s3.
     LT nt fuel 1 (new_CommonTokenStream l0 DEFAULT_CHANNEL) =
       Some (Inr (Some (A\<lparr>tokenIndex := 0\<rparr>)), s1) \<and>
     LT nt fuel 2 s1 = Some (Inr (Some (B\<lparr>tokenIndex := 2\<rparr>)), s2) \<and>
     index s2 = 0 \<and>
     getText nt fuel None s2 = Some (Inr (a @ c @ b), s3)"
proof -
  obtain f where f: "fuel = Suc (Suc f)"
    using assms(15) by (metis Suc_le_D numeral_2_eq_2 Suc_le_mono)
  show ?thesis
    using assms(1-14) unfolding f
    by (simp add: LT_def lazyInit_def setup'_def then_run_def returns_def sync_def fetch_def
      fetch_loop.simps adjustSeekIndex_def new_CommonTokenStream_def new_BufferedTokenStream_def
      nextTokenOnChannel_def at_def LT_loop.simps getText_def fill_def getText_loop.simps)
qed

theorem channel_filtering_witness:
  "\<exists>s1 s2 s3.
     LT scripted 2 1 (new_CommonTokenStream commented DEFAULT_CHANNEL) =
       Some (Inr (Some (buffered ! 0)), s1) \<and>
     LT scripted 2 2 s1 = Some (Inr (Some (buffered ! 2)), s2) \<and>
     index s2 = 0 \<and>
     getText scripted 2 None s2 = Some (Inr (codes ''A#commentB''), s3)"
  using channel_filtering [of scripted commented "a_token 1 DEFAULT_CHANNEL ''A''" "tl commented"
      "a_token 2 HIDDEN_CHANNEL ''#comment''" "tl (tl commented)"
      "a_token 1 DEFAULT_CHANNEL ''B''" "tl (tl (tl commented))"
      "a_token EOF DEFAULT_CHANNEL ''<EOF>''" "[]" "codes ''A''" "codes ''#comment''" "codes ''B''" 2]
  by (simp add: commented_def buffered_def scripted_def a_token_def get_text_def codes_def)

subsection \<open>Set\<close>

lemma scan_None: "scan eq v vs = None \<longleftrightarrow> (\<forall>x \<in> set vs. \<not> eq v x)"
  by (induction vs) auto

lemma scan_Some: "scan eq v vs = Some x \<Longrightarrow> x \<in> set vs \<and> eq v x"
  by (induction vs) (auto split: if_splits)

lemma add_fields [simp]:
  "hashFunction (snd (add v s)) = hashFunction s"
  "equalsFunction (snd (add v s)) = equalsFunction s"
  by (simp_all add: add_def Let_def split: option.split)

lemma adds_fields [simp]:
  "hashFunction (adds xs s) = hashFunction s"
  "equalsFunction (adds xs s) = equalsFunction s"
  by (induction xs arbitrary: s) simp_all

lemma canonical_new: "canonical (new_Set h eq)"
  by (simp add: canonical_def new_Set_def)

lemma canonical_add:
  assumes "canonical s"
  shows "canonical (snd (add v s))"
proof (cases "data s (hash_key (hashFunction s v))")
  case None
  then show ?thesis
    using assms by (auto simp: canonical_def add_def)
next
  case (Some vs)
  show ?thesis
  proof (cases "scan (equalsFunction s) v vs")
    case None
    then have "\<forall>x \<in> set vs. \<not> equalsFunction s v x"
      by (simp add: scan_None)
    then show ?thesis
      using assms Some None
      by (auto simp: canonical_def add_def sorted_wrt_append)
  next
    case (Some x)
    then show ?thesis
      using assms \<open>data s (hash_key (hashFunction s v)) = Some vs\<close>
      by (simp add: add_def)
  qed
qed

lemma canonical_adds: "canonical s \<Longrightarrow> canonical (adds xs s)"
  by (induction xs arbitrary: s) (simp_all add: canonical_add)

lemma stored_add_mono: "stored s \<subseteq> stored (snd (add v s))"
proof
  fix x
  assume "x \<in> stored s"
  then obtain k vs where kv: "data s k = Some vs" "x \<in> set vs"
    by (auto simp: stored_def)
  have "\<exists>ws. data (snd (add v s)) k = Some ws \<and> set vs \<subseteq> set ws"
    using kv(1) by (auto simp: add_def Let_def split: option.split)
  then show "x \<in> stored (snd (add v s))"
    using kv(2) by (auto simp: stored_def)
qed

lemma stored_adds_mono: "stored s \<subseteq> stored (adds xs s)"
proof (induction xs arbitrary: s)
  case Nil
  show ?case by simp
next
  case (Cons x xs)
  show ?case
    using stored_add_mono [of s x] Cons.IH [of "snd (add x s)"] by auto
qed

lemma add_returns_stored:
  "fst (add v s) \<in> stored (snd (add v s)) \<and>
   (fst (add v s) = v \<or> equalsFunction s v (fst (add v s)))"
proof (cases "data s (hash_key (hashFunction s v))")
  case None
  then show ?thesis by (auto simp: add_def stored_def)
next
  case (Some vs)
  then show ?thesis
    by (cases "scan (equalsFunction s) v vs") (auto simp: add_def stored_def dest: scan_Some)
qed

lemma adds_represented:
  "v \<in> set xs \<Longrightarrow> \<exists>r \<in> stored (adds xs s). r = v \<or> equalsFunction s v r"
proof (induction xs arbitrary: s)
  case Nil
  then show ?case by simp
next
  case (Cons x xs)
  show ?case
  proof (cases "v = x")
    case True
    have "fst (add x s) \<in> stored (snd (add x s)) \<and>
        (fst (add x s) = x \<or> equalsFunction s x (fst (add x s)))"
      by (rule add_returns_stored)
    then show ?thesis
      using True stored_adds_mono [of "snd (add x s)" xs] by auto
  next
    case False
    then have "v \<in> set xs" using Cons.prems by simp
    then have "\<exists>r \<in> stored (adds xs (snd (add x s))). r = v \<or> equalsFunction (snd (add x s)) v r"
      by (rule Cons.IH)
    then show ?thesis by simp
  qed
qed

lemma add_found:
  assumes c: "canonical s"
    and h: "\<forall>a b. equalsFunction s a b \<longrightarrow> hashFunction s a = hashFunction s b"
    and sym: "\<forall>a b. equalsFunction s a b \<longrightarrow> equalsFunction s b a"
    and trans: "\<forall>a b c. equalsFunction s a b \<longrightarrow> equalsFunction s b c \<longrightarrow> equalsFunction s a c"
    and r: "r \<in> stored s" and e: "equalsFunction s v r"
  shows "add v s = (r, s)"
proof -
  obtain k vs where kv: "data s k = Some vs" "r \<in> set vs"
    using r by (auto simp: stored_def)
  have k: "k = hash_key (hashFunction s v)"
    using c kv h e by (auto simp: canonical_def)
  have sw: "sorted_wrt (\<lambda>x y. \<not> equalsFunction s y x) vs"
    using c kv by (auto simp: canonical_def)
  obtain x where x: "scan (equalsFunction s) v vs = Some x"
    using scan_None [of "equalsFunction s" v vs] kv(2) e by (cases "scan (equalsFunction s) v vs") auto
  have xin: "x \<in> set vs" and xe: "equalsFunction s v x"
    using scan_Some [OF x] by auto
  have both: "equalsFunction s x r \<and> equalsFunction s r x"
    using xe e sym trans by blast
  have "x = r"
  proof (rule ccontr)
    assume ne: "x \<noteq> r"
    obtain i j where ij: "i < length vs" "j < length vs" "vs ! i = x" "vs ! j = r"
      using xin kv(2) by (auto simp: in_set_conv_nth)
    have "i \<noteq> j" using ne ij by auto
    then have "i < j \<or> j < i" by auto
    then show False
      using sw ij both by (auto simp: sorted_wrt_iff_nth_less)
  qed
  then show ?thesis
    using kv(1) k x by (simp add: add_def)
qed

lemma add_present:
  assumes c: "canonical s" and r: "r \<in> stored s" and e: "equalsFunction s v r"
    and h: "hashFunction s v = hashFunction s r"
  shows "\<exists>x \<in> stored s. add v s = (x, s) \<and> equalsFunction s v x"
proof -
  obtain k vs where kv: "data s k = Some vs" "r \<in> set vs"
    using r by (auto simp: stored_def)
  have k: "k = hash_key (hashFunction s v)"
    using c kv h by (auto simp: canonical_def)
  obtain x where x: "scan (equalsFunction s) v vs = Some x"
    using scan_None [of "equalsFunction s" v vs] kv(2) e by (cases "scan (equalsFunction s) v vs") auto
  have xin: "x \<in> set vs" and xe: "equalsFunction s v x"
    using scan_Some [OF x] by auto
  have "x \<in> stored s" using kv(1) xin by (auto simp: stored_def)
  moreover have "add v s = (x, s)" using kv(1) k x by (simp add: add_def)
  ultimately show ?thesis using xe by blast
qed

lemma stored_update:
  "stored (s\<lparr>data := (data s)(k \<mapsto> ws)\<rparr>) =
     set ws \<union> {x. \<exists>k' vs. k' \<noteq> k \<and> data s k' = Some vs \<and> x \<in> set vs}"
  by (fastforce simp: stored_def split: if_splits)

lemma add_fresh:
  assumes "\<forall>x \<in> stored s. \<not> equalsFunction s v x"
  shows "fst (add v s) = v \<and> stored (snd (add v s)) = insert v (stored s)"
proof -
  let ?k = "hash_key (hashFunction s v)"
  obtain vs where vs: "vs = (case data s ?k of None \<Rightarrow> [] | Some ws \<Rightarrow> ws)"
    by simp
  have in_s: "set vs \<subseteq> stored s"
    using vs by (cases "data s ?k") (auto simp: stored_def)
  then have "\<forall>x \<in> set vs. \<not> equalsFunction s v x"
    using assms by blast
  then have sc: "scan (equalsFunction s) v vs = None"
    by (simp add: scan_None)
  have a: "add v s = (v, s\<lparr>data := (data s)(?k \<mapsto> vs @ [v])\<rparr>)"
    using vs sc by (cases "data s ?k") (simp_all add: add_def)
  have "stored (s\<lparr>data := (data s)(?k \<mapsto> vs @ [v])\<rparr>) \<subseteq> insert v (stored s)"
    using in_s unfolding stored_update by (auto simp: stored_def)
  moreover have "stored s \<subseteq> stored (s\<lparr>data := (data s)(?k \<mapsto> vs @ [v])\<rparr>)"
    using stored_add_mono [of s v] a by simp
  moreover have "v \<in> stored (s\<lparr>data := (data s)(?k \<mapsto> vs @ [v])\<rparr>)"
    unfolding stored_update by simp
  ultimately show ?thesis
    using a by auto
qed

lemma stored_dom: "stored s = (\<Union>k \<in> dom (data s). set (the (data s k)))"
  unfolding stored_def by (auto simp: dom_def) blast

lemma stored_parity_13: "stored (adds [1, 3] parity_hashed) = {1}"
  by (simp add: stored_dom parity_hashed_def new_Set_def add_def)

text \<open>
  C8, as stated: a value equal to one added before is not inserted again, and the stored
  instance is returned. The set \<open>by_parity\<close> takes 1 and 3 as equal and hashes them
  to 1 and 3: after \<^verbatim>\<open>add(1)\<close>, \<^verbatim>\<open>add(3)\<close> finds no bucket \<^verbatim>\<open>hash_3\<close>, inserts 3
  and returns 3.
\<close>

theorem add_equal_value_under_other_hash:
  "equalsFunction (snd (add 1 by_parity)) 3 1 \<and>
   fst (add 1 by_parity) = 1 \<and>
   data (snd (add 1 by_parity)) (hash_key 3) = None \<and>
   fst (add 3 (snd (add 1 by_parity))) = 3 \<and>
   data (snd (add 3 (snd (add 1 by_parity)))) (hash_key 3) = Some [3]"
  by (simp add: by_parity_def new_Set_def add_def)


text \<open>
  C8, amended. Let \<open>s\<close> be the set after adding the values \<open>xs\<close> to an empty set with
  the hash function \<open>h\<close> and the equality function \<open>eq\<close>, and let \<open>v2\<close> be equal to
  \<open>v1\<close>.

    \<^item> If equal values have equal hashes and \<open>v1\<close> is stored in \<open>s\<close>, then \<^verbatim>\<open>add(v2)\<close>
      leaves \<open>s\<close> as it is and returns a stored instance equal to \<open>v2\<close>.

    \<^item> If moreover \<open>eq\<close> is transitive, the same holds for every \<open>v1\<close> added before,
      stored or not.

    \<^item> If moreover \<open>eq\<close> is symmetric and \<open>v1\<close> is stored in \<open>s\<close>, the instance
      returned is \<open>v1\<close> itself.

  For every set \<open>t\<close> whatsoever, if no stored value is equal to \<open>v\<close>, then \<^verbatim>\<open>add(v)\<close>
  returns \<open>v\<close> and stores it.
\<close>

theorem add_returns_canonical_instance:
  fixes eq :: "'a \<Rightarrow> 'a \<Rightarrow> bool" and h :: "'a \<Rightarrow> int" and xs :: "'a list" and t :: "'a Set"
  defines "s \<equiv> adds xs (new_Set h eq)"
  shows
    "((\<forall>a b. eq a b \<longrightarrow> h a = h b) \<longrightarrow>
        (\<forall>v1 \<in> stored s. eq v2 v1 \<longrightarrow> (\<exists>r \<in> stored s. add v2 s = (r, s) \<and> eq v2 r))) \<and>
     ((\<forall>a b. eq a b \<longrightarrow> h a = h b) \<and> (\<forall>a b c. eq a b \<longrightarrow> eq b c \<longrightarrow> eq a c) \<longrightarrow>
        (\<forall>v1 \<in> set xs. eq v2 v1 \<longrightarrow> (\<exists>r \<in> stored s. add v2 s = (r, s) \<and> eq v2 r))) \<and>
     ((\<forall>a b. eq a b \<longrightarrow> h a = h b) \<and> (\<forall>a b. eq a b \<longrightarrow> eq b a) \<and>
      (\<forall>a b c. eq a b \<longrightarrow> eq b c \<longrightarrow> eq a c) \<longrightarrow>
        (\<forall>v1 \<in> stored s. eq v2 v1 \<longrightarrow> add v2 s = (v1, s))) \<and>
     ((\<forall>x \<in> stored t. \<not> equalsFunction t v x) \<longrightarrow>
        fst (add v t) = v \<and> stored (snd (add v t)) = insert v (stored t))"
proof -
  have eqs: "equalsFunction s = eq" and hs: "hashFunction s = h"
    by (simp_all add: s_def new_Set_def)
  have c: "canonical s"
    unfolding s_def by (rule canonical_adds) (rule canonical_new)
  have present: "\<exists>r \<in> stored s. add v2 s = (r, s) \<and> eq v2 r"
    if "r \<in> stored s" "eq v2 r" "h v2 = h r" for r
    using add_present [of s r v2, unfolded eqs hs, OF c] that by blast
  have one: "\<exists>r \<in> stored s. add v2 s = (r, s) \<and> eq v2 r"
    if hash: "\<forall>a b. eq a b \<longrightarrow> h a = h b" and v1: "v1 \<in> stored s" and e: "eq v2 v1" for v1
    using present [OF v1 e] hash e by blast
  have two: "\<exists>r \<in> stored s. add v2 s = (r, s) \<and> eq v2 r"
    if hash: "\<forall>a b. eq a b \<longrightarrow> h a = h b"
      and trans: "\<forall>a b c. eq a b \<longrightarrow> eq b c \<longrightarrow> eq a c"
      and v1: "v1 \<in> set xs" and e: "eq v2 v1" for v1
  proof -
    have "\<exists>r \<in> stored s. r = v1 \<or> eq v1 r"
      using adds_represented [OF v1, of "new_Set h eq"] unfolding s_def
      by (simp add: new_Set_def)
    then obtain r where r: "r \<in> stored s" "r = v1 \<or> eq v1 r" by blast
    have "eq v2 r" using r(2) e trans by blast
    then show ?thesis using one [OF hash r(1)] by blast
  qed
  have three: "add v2 s = (v1, s)"
    if hash: "\<forall>a b. eq a b \<longrightarrow> h a = h b" and sym: "\<forall>a b. eq a b \<longrightarrow> eq b a"
      and trans: "\<forall>a b c. eq a b \<longrightarrow> eq b c \<longrightarrow> eq a c"
      and v1: "v1 \<in> stored s" and e: "eq v2 v1" for v1
    using add_found [of s v1 v2, unfolded eqs hs, OF c hash sym trans v1 e] .
  have four: "fst (add v t) = v \<and> stored (snd (add v t)) = insert v (stored t)"
    if "\<forall>x \<in> stored t. \<not> equalsFunction t v x"
    using add_fresh [OF that] .
  show ?thesis
    using one two three four by (intro conjI impI ballI) blast+
qed


text \<open>
  The amended statement on the set \<open>parity_hashed\<close> after \<^verbatim>\<open>add(1)\<close> and \<^verbatim>\<open>add(3)\<close>,
  which stores 1 alone: \<^verbatim>\<open>add(5)\<close> returns 1 and changes nothing, \<^verbatim>\<open>add(2)\<close> returns
  2 and stores it.
\<close>

theorem add_returns_canonical_instance_witness:
  "1 \<in> stored (adds [1, 3] parity_hashed) \<and> 3 \<notin> stored (adds [1, 3] parity_hashed) \<and>
   (\<exists>r \<in> stored (adds [1, 3] parity_hashed).
      add 5 (adds [1, 3] parity_hashed) = (r, adds [1, 3] parity_hashed) \<and>
      equalsFunction parity_hashed 5 r) \<and>
   add 5 (adds [1, 3] parity_hashed) = (1, adds [1, 3] parity_hashed) \<and>
   fst (add 2 (adds [1, 3] parity_hashed)) = 2 \<and>
   stored (snd (add 2 (adds [1, 3] parity_hashed))) = {1, 2}"
proof -
  let ?eq = "\<lambda>a b :: int. a mod 2 = b mod 2"
  let ?h = "\<lambda>v :: int. v mod 2"
  let ?s = "adds [1, 3] parity_hashed"
  have p: "new_Set ?h ?eq = parity_hashed"
    by (simp add: parity_hashed_def)
  have eqp: "equalsFunction parity_hashed = ?eq"
    by (simp add: parity_hashed_def new_Set_def)
  have st: "stored ?s = {1}"
    by (rule stored_parity_13)
  have hash: "\<forall>a b. ?eq a b \<longrightarrow> ?h a = ?h b"
    by simp
  have sym: "\<forall>a b. ?eq a b \<longrightarrow> ?eq b a"
    by simp
  have trans: "\<forall>a b c. ?eq a b \<longrightarrow> ?eq b c \<longrightarrow> ?eq a c"
    by simp
  have fresh: "\<forall>x \<in> stored ?s. \<not> equalsFunction ?s 2 x"
    unfolding st by (simp add: eqp)
  have e1: "?eq 5 1" and e3: "?eq 5 3"
    by simp_all
  have in1: "1 \<in> stored ?s" and out3: "3 \<notin> stored ?s" and in3: "(3::int) \<in> set [1, 3]"
    unfolding st by simp_all
  note layers = add_returns_canonical_instance
    [where eq = ?eq and h = ?h and xs = "[1, 3]" and ?v2.0 = 5 and t = ?s and v = 2, unfolded p]
  have two: "\<exists>r \<in> stored ?s. add 5 ?s = (r, ?s) \<and> ?eq 5 r"
    using layers hash trans in3 e3 by blast
  have three: "add 5 ?s = (1, ?s)"
    using layers hash sym trans in1 e1 by blast
  have four: "fst (add 2 ?s) = 2 \<and> stored (snd (add 2 ?s)) = insert 2 (stored ?s)"
    using layers fresh by blast
  show ?thesis
    using in1 out3 two three four unfolding st eqp by (simp add: insert_commute)
qed


text \<open>
  None of the conditions can be dropped. A value added before need not be stored:
  after \<^verbatim>\<open>add(1)\<close> and \<^verbatim>\<open>add(3)\<close> on \<open>parity_hashed\<close> the second call has returned 1
  and 3 is not stored, so \<^verbatim>\<open>add(5)\<close>, equal to 3, returns 1 and not 3.
\<close>

lemma add_of_added_not_stored:
  "fst (add 3 (adds [1] parity_hashed)) = 1 \<and>
   3 \<notin> stored (adds [1, 3] parity_hashed) \<and>
   equalsFunction parity_hashed 5 3 \<and>
   add 5 (adds [1, 3] parity_hashed) = (1, adds [1, 3] parity_hashed)"
proof -
  have "3 \<notin> stored (adds [1, 3] parity_hashed)"
    unfolding stored_parity_13 by simp
  moreover have "fst (add 3 (adds [1] parity_hashed)) = 1 \<and>
      equalsFunction parity_hashed 5 3 \<and>
      add 5 (adds [1, 3] parity_hashed) = (1, adds [1, 3] parity_hashed)"
    by (simp add: parity_hashed_def new_Set_def add_def)
  ultimately show ?thesis by blast
qed


text \<open>
  Without symmetry the instance returned need not be the stored \<open>v1\<close>: \<open>ordered\<close>
  stores 1 and 2 after \<^verbatim>\<open>add(1)\<close> and \<^verbatim>\<open>add(2)\<close>; 0 is equal to the stored 2, and
  \<^verbatim>\<open>add(0)\<close> returns 1, the first entry of the bucket that 0 is equal to.
\<close>

lemma add_without_symmetry:
  "2 \<in> stored (adds [1, 2] ordered) \<and> equalsFunction ordered 0 2 \<and>
   add 0 (adds [1, 2] ordered) = (1, adds [1, 2] ordered)"
proof -
  have "2 \<in> stored (adds [1, 2] ordered)"
    unfolding stored_def
    by (rule CollectI, rule exI [of _ "hash_key 0"], rule exI [of _ "[1, 2]"])
       (simp add: ordered_def new_Set_def add_def)
  then show ?thesis
    by (simp add: ordered_def new_Set_def add_def)
qed


text \<open>
  Without transitivity either: \<open>wildcard\<close> stores 1 and 2 after \<^verbatim>\<open>add(1)\<close> and
  \<^verbatim>\<open>add(2)\<close>; 9 is equal to the stored 2, and \<^verbatim>\<open>add(9)\<close> returns 1. And a value
  equal to one added before can be inserted: after \<^verbatim>\<open>add(1)\<close> and \<^verbatim>\<open>add(9)\<close> the
  bucket holds 1 alone (the second call returned 1), and \<^verbatim>\<open>add(2)\<close>, equal to 9 but
  not to 1, appends 2 and returns it.
\<close>

lemma add_without_transitivity:
  "2 \<in> stored (adds [1, 2] wildcard) \<and> equalsFunction wildcard 9 2 \<and>
   add 9 (adds [1, 2] wildcard) = (1, adds [1, 2] wildcard) \<and>
   equalsFunction wildcard 2 9 \<and> fst (add 9 (adds [1] wildcard)) = 1 \<and>
   fst (add 2 (adds [1, 9] wildcard)) = 2 \<and>
   data (adds [1, 9] wildcard) (hash_key 0) = Some [1] \<and>
   data (snd (add 2 (adds [1, 9] wildcard))) (hash_key 0) = Some [1, 2]"
proof -
  have "2 \<in> stored (adds [1, 2] wildcard)"
    unfolding stored_def
    by (rule CollectI, rule exI [of _ "hash_key 0"], rule exI [of _ "[1, 2]"])
       (simp add: wildcard_def new_Set_def add_def)
  then show ?thesis
    by (simp add: wildcard_def new_Set_def add_def)
qed

subsection \<open>BitSet\<close>

lemma elems_fold_add:
  "\<forall>v \<in> set vs. v = BTrue \<or> v = BUndefined \<Longrightarrow>
   elems (bs_data (fold BitSet_add vs b)) = elems (bs_data b)"
  by (induction vs arbitrary: b) (auto simp: BitSet_add_def put_true_def)

lemma named_fold_add:
  "\<forall>v \<in> set vs. v = BTrue \<or> v = BUndefined \<Longrightarrow> w \<noteq> ''true'' \<Longrightarrow> w \<noteq> ''undefined'' \<Longrightarrow>
   w \<in> named (bs_data (fold BitSet_add vs b)) \<longleftrightarrow> w \<in> named (bs_data b)"
  by (induction vs arbitrary: b) (auto simp: BitSet_add_def put_true_def)

lemma BitSet_or_elems: "elems (bs_data (BitSet_or a b)) = elems (bs_data a)"
  unfolding BitSet_or_def by (rule elems_fold_add) (auto simp: iterate_def)

lemma last_decimal: "last (decimal n) = digit (n mod 10)"
  by (subst decimal.simps) simp

lemma decimal_is_no_word: "decimal n \<noteq> ''true'' \<and> decimal n \<noteq> ''undefined''"
proof -
  have "n mod 10 < length ''0123456789''"
    by simp
  then have "digit (n mod 10) \<in> set ''0123456789''"
    unfolding digit_def by (rule nth_mem)
  then have "last (decimal n) \<noteq> CHR ''e'' \<and> last (decimal n) \<noteq> CHR ''d''"
    unfolding last_decimal by auto
  then show ?thesis by auto
qed

lemma BitSet_or_numbers:
  "BitSet_contains (BNumber n) (BitSet_or a b) = BitSet_contains (BNumber n) a"
proof -
  have "\<forall>v \<in> set (iterate (bs_data b)). v = BTrue \<or> v = BUndefined"
    by (auto simp: iterate_def)
  then have "decimal n \<in> named (bs_data (BitSet_or a b)) \<longleftrightarrow> decimal n \<in> named (bs_data a)"
    unfolding BitSet_or_def using decimal_is_no_word [of n] by (intro named_fold_add) simp_all
  then show ?thesis
    by (simp add: BitSet_contains_def reads_true_def BitSet_or_elems)
qed

text \<open>
  C10. After \<^verbatim>\<open>a.or(b)\<close> the set \<open>a\<close> should contain every value of \<open>b\<close>. The loop
  of \<^verbatim>\<open>or\<close> visits the elements of \<^verbatim>\<open>b.data\<close>, not its indices: with \<open>a\<close> empty and
  \<open>b = {3}\<close> it adds \<^verbatim>\<open>undefined\<close> three times and \<^verbatim>\<open>true\<close> once, and \<open>3\<close> is in
  \<open>b\<close> but not in \<open>a\<close> afterwards.
\<close>

theorem BitSet_or_misses_member:
  "BitSet_contains (BNumber 3) (BitSet_add (BNumber 3) new_BitSet) \<and>
   \<not> BitSet_contains (BNumber 3) (BitSet_or new_BitSet (BitSet_add (BNumber 3) new_BitSet)) \<and>
   bs_data (BitSet_or new_BitSet (BitSet_add (BNumber 3) new_BitSet)) =
     \<lparr>elems = [], named = {''true'', ''undefined''}\<rparr>"
proof -
  have r: "replicate 3 False = [False, False, False]"
    by (simp add: numeral_3_eq_3)
  have b: "BitSet_add (BNumber 3) new_BitSet =
      \<lparr>bs_data = \<lparr>elems = [False, False, False, True], named = {}\<rparr>\<rparr>"
    by (simp add: BitSet_add_def put_true_def new_BitSet_def r)
  have o: "BitSet_or new_BitSet \<lparr>bs_data = \<lparr>elems = [False, False, False, True], named = {}\<rparr>\<rparr> =
      \<lparr>bs_data = \<lparr>elems = [], named = {''true'', ''undefined''}\<rparr>\<rparr>"
    by (simp add: BitSet_or_def iterate_def BitSet_add_def put_true_def new_BitSet_def
        insert_commute)
  show ?thesis
    unfolding b o by (simp add: BitSet_contains_def reads_true_def)
qed

end
